theory Spec2Isabelle
  imports Complex_Main "HOL-Library.Sublist"
begin

section \<open>JavaScript strings\<close>

text \<open>
  A JavaScript string is a sequence of UTF-16 code units. The embedding uses \<open>string\<close>
  (a \<open>char list\<close>), one \<open>char\<close> per code unit, so it covers the strings whose code
  units lie in U+0000 .. U+00FF; \<open>length\<close> is then JavaScript's \<open>.length\<close>.
  Numbers that the code only compares with lengths or counts are \<open>int\<close>; costs
  (doubles in the source, never inspected by the engine) are \<open>real\<close>.
\<close>

definition isWhiteSpace :: "char \<Rightarrow> bool" where
  \<comment> \<open>WhiteSpace and LineTerminator below U+0100: what \<open>trim\<close>, \<open>parseInt\<close> and the
      regular-expression class \<open>\s\<close> skip.\<close>
  "isWhiteSpace c \<longleftrightarrow> of_char c \<in> {9, 10, 11, 12, 13, 32, 160 :: nat}"

definition isDigit :: "char \<Rightarrow> bool" where
  "isDigit c \<longleftrightarrow> (48::nat) \<le> of_char c \<and> of_char c \<le> (57::nat)"

definition isWordChar :: "char \<Rightarrow> bool" where
  \<comment> \<open>the class \<open>\w\<close>: letters, digits and the underscore\<close>
  "isWordChar c \<longleftrightarrow>
     (let n = (of_char c :: nat) in
        (48 \<le> n \<and> n \<le> 57) \<or> (65 \<le> n \<and> n \<le> 90) \<or> (97 \<le> n \<and> n \<le> 122) \<or> n = 95)"

definition trim :: "string \<Rightarrow> string" where
  "trim s = rev (dropWhile isWhiteSpace (rev (dropWhile isWhiteSpace s)))"

fun includes_str :: "string \<Rightarrow> string \<Rightarrow> bool" where
  \<comment> \<open>\<open>s.includes(t)\<close>: \<open>t\<close> occurs in \<open>s\<close> as a contiguous substring\<close>
  "includes_str [] t = (t = [])"
| "includes_str (x # xs) t = (prefix t (x # xs) \<or> includes_str xs t)"

definition startsWith :: "string \<Rightarrow> string \<Rightarrow> bool" where
  "startsWith s t = prefix t s"

definition lowerChar :: "char \<Rightarrow> char" where
  "lowerChar c =
     (let n = (of_char c :: nat) in
        if (65 \<le> n \<and> n \<le> 90) \<or> (192 \<le> n \<and> n \<le> 222 \<and> n \<noteq> 215)
        then char_of (n + 32) else c)"

definition toLowerCase :: "string \<Rightarrow> string" where
  "toLowerCase s = map lowerChar s"

definition upperChar :: "char \<Rightarrow> string" where
  \<comment> \<open>\<open>toUpperCase\<close> of one code unit. U+00DF maps to the two units \<open>SS\<close>; U+00B5 and
      U+00FF have upper-case forms above U+00FF and are kept as they are (neither form
      is an ASCII letter).\<close>
  "upperChar c =
     (let n = (of_char c :: nat) in
        if (97 \<le> n \<and> n \<le> 122) \<or> (224 \<le> n \<and> n \<le> 254 \<and> n \<noteq> 247)
        then [char_of (n - 32)]
        else if n = 223 then ''SS'' else [c])"

definition toUpperCase :: "string \<Rightarrow> string" where
  "toUpperCase s = concat (map upperChar s)"

definition digitChar :: "nat \<Rightarrow> char" where
  "digitChar d = ''0123456789'' ! d"

fun natToString :: "nat \<Rightarrow> string" where
  "natToString n = (if n < 10 then [digitChar n] else natToString (n div 10) @ [digitChar (n mod 10)])"

declare natToString.simps [simp del]

definition intToString :: "int \<Rightarrow> string" where
  \<comment> \<open>\<open>String(n)\<close> for an integral number, exact below \<open>10^21\<close> in magnitude\<close>
  "intToString i = (if i < 0 then CHR ''-'' # natToString (nat (- i)) else natToString (nat i))"

subsection \<open>parseInt\<close>

definition digitValue :: "char \<Rightarrow> nat" where
  "digitValue c =
     (let n = (of_char c :: nat) in
        if 48 \<le> n \<and> n \<le> 57 then n - 48
        else if 97 \<le> n \<and> n \<le> 102 then n - 87
        else if 65 \<le> n \<and> n \<le> 70 then n - 55
        else 36)"

definition isRadixDigit :: "nat \<Rightarrow> char \<Rightarrow> bool" where
  "isRadixDigit R c \<longleftrightarrow> digitValue c < R"

definition radixValue :: "nat \<Rightarrow> string \<Rightarrow> nat" where
  "radixValue R z = foldl (\<lambda>acc c. acc * R + digitValue c) 0 z"

datatype jsnumber = Num int | PosInfinity | NaN

definition parseInt :: "string \<Rightarrow> jsnumber" where
  \<comment> \<open>\<open>parseInt(string)\<close> with no radix argument. Leading white space is skipped, a
      sign is read, a \<open>0x\<close>/\<open>0X\<close> prefix selects radix 16, and the longest run of digits
      is the value; no digit at all gives \<open>NaN\<close>.\<close>
  "parseInt inputString =
     (let S = dropWhile isWhiteSpace inputString;
          sign = (if S \<noteq> [] \<and> hd S = CHR ''-'' then - 1 else 1 :: int);
          S1 = (if S \<noteq> [] \<and> (hd S = CHR ''+'' \<or> hd S = CHR ''-'') then tl S else S);
          hex = (prefix ''0x'' S1 \<or> prefix ''0X'' S1);
          R = (if hex then 16 else 10 :: nat);
          S2 = (if hex then drop 2 S1 else S1);
          Z = takeWhile (isRadixDigit R) S2
      in if Z = [] then NaN else Num (sign * int (radixValue R Z)))"

fun orElse :: "jsnumber \<Rightarrow> jsnumber \<Rightarrow> jsnumber" where
  \<comment> \<open>\<open>a || b\<close> on numbers: \<open>NaN\<close> and zero are falsy\<close>
  "orElse NaN b = b"
| "orElse (Num n) b = (if n = 0 then b else Num n)"
| "orElse PosInfinity b = PosInfinity"

fun lengthGe :: "nat \<Rightarrow> jsnumber \<Rightarrow> bool" where
  \<comment> \<open>\<open>length >= x\<close>\<close>
  "lengthGe l (Num n) = (n \<le> int l)"
| "lengthGe l PosInfinity = False"
| "lengthGe l NaN = False"

fun lengthLe :: "nat \<Rightarrow> jsnumber \<Rightarrow> bool" where
  \<comment> \<open>\<open>length <= x\<close>\<close>
  "lengthLe l (Num n) = (int l \<le> n)"
| "lengthLe l PosInfinity = True"
| "lengthLe l NaN = False"

fun numberToString :: "jsnumber \<Rightarrow> string" where
  "numberToString (Num n) = intToString n"
| "numberToString PosInfinity = ''Infinity''"
| "numberToString NaN = ''NaN''"

section \<open>Regular expressions of the source\<close>

text \<open>
  The literal regular expressions of the source are sequences of single-character atoms
  with a quantifier each, with at most one capture group. \<open>rmatch\<close> is the backtracking
  matcher of ECMAScript on that fragment, anchored at the head of its input: a greedy
  quantifier tries the longest repetition first, a lazy one the shortest. Positions are
  counted from the start of the match.
\<close>

datatype rclass =
    Ch char     \<comment> \<open>one literal character\<close>
  | AnyChar     \<comment> \<open>\<open>[\s\S]\<close>\<close>
  | Space       \<comment> \<open>\<open>\s\<close>\<close>
  | Word        \<comment> \<open>\<open>\w\<close>\<close>

datatype rquant = Once | Opt | Star | Plus | LazyStar

datatype ritem = Atom rclass rquant | GroupOpen | GroupClose

type_synonym regex = "ritem list"

type_synonym rgroup = "nat option \<times> nat option"

fun inClass :: "rclass \<Rightarrow> char \<Rightarrow> bool" where
  "inClass (Ch c) x = (x = c)"
| "inClass AnyChar x = True"
| "inClass Space x = isWhiteSpace x"
| "inClass Word x = isWordChar x"

fun rmatch :: "regex \<Rightarrow> string \<Rightarrow> nat \<Rightarrow> rgroup \<Rightarrow> (nat \<times> rgroup) option" where
  "rmatch [] s pos g = Some (pos, g)"
| "rmatch (GroupOpen # r) s pos g = rmatch r s pos (Some pos, snd g)"
| "rmatch (GroupClose # r) s pos g = rmatch r s pos (fst g, Some pos)"
| "rmatch (Atom c Once # r) [] pos g = None"
| "rmatch (Atom c Once # r) (x # xs) pos g =
     (if inClass c x then rmatch r xs (pos + 1) g else None)"
| "rmatch (Atom c Opt # r) [] pos g = rmatch r [] pos g"
| "rmatch (Atom c Opt # r) (x # xs) pos g =
     (if inClass c x
      then (case rmatch r xs (pos + 1) g of
              Some res \<Rightarrow> Some res
            | None \<Rightarrow> rmatch r (x # xs) pos g)
      else rmatch r (x # xs) pos g)"
| "rmatch (Atom c Star # r) [] pos g = rmatch r [] pos g"
| "rmatch (Atom c Star # r) (x # xs) pos g =
     (if inClass c x
      then (case rmatch (Atom c Star # r) xs (pos + 1) g of
              Some res \<Rightarrow> Some res
            | None \<Rightarrow> rmatch r (x # xs) pos g)
      else rmatch r (x # xs) pos g)"
| "rmatch (Atom c Plus # r) [] pos g = None"
| "rmatch (Atom c Plus # r) (x # xs) pos g =
     (if inClass c x then rmatch (Atom c Star # r) xs (pos + 1) g else None)"
| "rmatch (Atom c LazyStar # r) [] pos g = rmatch r [] pos g"
| "rmatch (Atom c LazyStar # r) (x # xs) pos g =
     (case rmatch r (x # xs) pos g of
        Some res \<Rightarrow> Some res
      | None \<Rightarrow> (if inClass c x then rmatch (Atom c LazyStar # r) xs (pos + 1) g else None))"

definition lit :: "string \<Rightarrow> regex" where
  "lit s = map (\<lambda>c. Atom (Ch c) Once) s"

definition group1 :: "string \<Rightarrow> rgroup \<Rightarrow> string" where
  \<comment> \<open>\<open>match[1]\<close>, read off the input the match started at\<close>
  "group1 s g =
     (case g of
        (Some b, Some e) \<Rightarrow> take (e - b) (drop b s)
      | _ \<Rightarrow> [])"

fun regexExec :: "regex \<Rightarrow> string \<Rightarrow> (string \<times> string) option" where
  \<comment> \<open>\<open>s.match(re)\<close> for \<open>re\<close> without the \<open>g\<close> flag: the leftmost match, as the pair of
      \<open>match[0]\<close> and \<open>match[1]\<close>; \<open>None\<close> is \<open>null\<close>.\<close>
  "regexExec re [] =
     (case rmatch re [] 0 (None, None) of
        Some (e, g) \<Rightarrow> Some ([], group1 [] g)
      | None \<Rightarrow> None)"
| "regexExec re (x # xs) =
     (case rmatch re (x # xs) 0 (None, None) of
        Some (e, g) \<Rightarrow> Some (take e (x # xs), group1 (x # xs) g)
      | None \<Rightarrow> regexExec re xs)"

fun matchAll :: "regex \<Rightarrow> string \<Rightarrow> string list" where
  \<comment> \<open>\<open>s.match(re)\<close> for \<open>re\<close> with the \<open>g\<close> flag: every match, left to right, each search
      resuming where the last match ended (one further when the match was empty). The empty
      list stands for \<open>null\<close>.\<close>
  "matchAll re [] =
     (case rmatch re [] 0 (None, None) of Some (e, g) \<Rightarrow> [[]] | None \<Rightarrow> [])"
| "matchAll re (x # xs) =
     (case rmatch re (x # xs) 0 (None, None) of
        Some (e, g) \<Rightarrow>
          (if e = 0 then [] # matchAll re xs
           else take e (x # xs) # matchAll re (drop (e - 1) xs))
      | None \<Rightarrow> matchAll re xs)"

fun getSubstitution :: "string \<Rightarrow> string \<Rightarrow> string \<Rightarrow> string \<Rightarrow> string" where
  \<comment> \<open>GetSubstitution for a pattern without capture groups: in the replacement text
      \<open>$$\<close> is a dollar sign, \<open>$&\<close> the matched text, \<open>$`\<close> the text that precedes the match and
      \<open>$'\<close> the text that follows it; every other character, a lone \<open>$\<close> too, stands for
      itself.\<close>
  "getSubstitution matched pre post [] = []"
| "getSubstitution matched pre post [c] = [c]"
| "getSubstitution matched pre post (c # d # r) =
     (if c = CHR ''$'' \<and> d = CHR ''$'' then CHR ''$'' # getSubstitution matched pre post r
      else if c = CHR ''$'' \<and> d = CHR ''&'' then matched @ getSubstitution matched pre post r
      else if c = CHR ''$'' \<and> d = CHR 0x60 then pre @ getSubstitution matched pre post r
      else if c = CHR ''$'' \<and> d = CHR 0x27 then post @ getSubstitution matched pre post r
      else c # getSubstitution matched pre post (d # r))"

fun replaceAllFrom :: "regex \<Rightarrow> string \<Rightarrow> string \<Rightarrow> string \<Rightarrow> string" where
  \<comment> \<open>\<open>s.replace(re, replacement)\<close> for \<open>re\<close> with the \<open>g\<close> flag and without groups;
      \<open>pre\<close> is the part of the subject already scanned.\<close>
  "replaceAllFrom re replacement pre [] =
     (case rmatch re [] 0 (None, None) of
        Some (e, g) \<Rightarrow> getSubstitution [] pre [] replacement
      | None \<Rightarrow> [])"
| "replaceAllFrom re replacement pre (x # xs) =
     (case rmatch re (x # xs) 0 (None, None) of
        Some (e, g) \<Rightarrow>
          (if e = 0
           then getSubstitution [] pre (x # xs) replacement
                  @ x # replaceAllFrom re replacement (pre @ [x]) xs
           else getSubstitution (take e (x # xs)) pre (drop e (x # xs)) replacement
                  @ replaceAllFrom re replacement (pre @ take e (x # xs)) (drop (e - 1) xs))
      | None \<Rightarrow> x # replaceAllFrom re replacement (pre @ [x]) xs)"

definition replaceAll :: "regex \<Rightarrow> string \<Rightarrow> string \<Rightarrow> string" where
  "replaceAll re replacement s = replaceAllFrom re replacement [] s"

fun splitFrom :: "regex \<Rightarrow> string \<Rightarrow> string \<Rightarrow> string list" where
  \<comment> \<open>the scan of \<open>s.split(re)\<close>: \<open>piece\<close> is the text since the last separator\<close>
  "splitFrom re piece [] = [piece]"
| "splitFrom re piece (x # xs) =
     (case rmatch re (x # xs) 0 (None, None) of
        Some (e, g) \<Rightarrow>
          (if e = 0
           then (if piece = [] then splitFrom re [x] xs else piece # splitFrom re [x] xs)
           else piece # splitFrom re [] (drop (e - 1) xs))
      | None \<Rightarrow> splitFrom re (piece @ [x]) xs)"

definition split :: "regex \<Rightarrow> string \<Rightarrow> string list" where
  "split re s =
     (if s = []
      then (case rmatch re [] 0 (None, None) of Some (e, g) \<Rightarrow> [] | None \<Rightarrow> [[]])
      else splitFrom re [] s)"

definition join :: "string \<Rightarrow> string list \<Rightarrow> string" where
  "join sep xs = (case xs of [] \<Rightarrow> [] | y # ys \<Rightarrow> y @ concat (map (\<lambda>z. sep @ z) ys))"

section \<open>JSON.parse, as an acceptor\<close>

text \<open>
  The source calls \<open>JSON.parse\<close> only to see whether it throws. \<open>jsonParses\<close> accepts
  exactly the JSON texts of ECMA-404: the text is cut into tokens, and a stack automaton
  checks that the tokens form one value.
\<close>

datatype jtoken = LBrace | RBrace | LBracket | RBracket | Colon | Comma | TString | TScalar

definition isJsonSpace :: "char \<Rightarrow> bool" where
  "isJsonSpace c \<longleftrightarrow> of_char c \<in> {9, 10, 13, 32 :: nat}"

definition isHexDigit :: "char \<Rightarrow> bool" where
  "isHexDigit c \<longleftrightarrow> digitValue c < 16"

fun scanString :: "string \<Rightarrow> nat option" where
  \<comment> \<open>the number of characters up to and with the closing quote of a string whose
      opening quote has been read\<close>
  "scanString [] = None"
| "scanString (c # cs) =
     (if c = CHR 0x22 then Some 1
      else if c = CHR 0x5C then
        (case cs of
           [] \<Rightarrow> None
         | e # es \<Rightarrow>
             (if e \<in> set [CHR 0x22, CHR 0x5C, CHR ''/'', CHR ''b'', CHR ''f'', CHR ''n'', CHR ''r'', CHR ''t'']
              then map_option (\<lambda>n. n + 2) (scanString es)
              else if e = CHR ''u'' \<and> 4 \<le> length es \<and> list_all isHexDigit (take 4 es)
              then map_option (\<lambda>n. n + 6) (scanString (drop 4 es))
              else None))
      else if (of_char c :: nat) < 32 then None
      else map_option Suc (scanString cs))"

definition countDigits :: "string \<Rightarrow> nat" where
  "countDigits s = length (takeWhile isDigit s)"

definition scanExponent :: "string \<Rightarrow> nat option" where
  "scanExponent s =
     (case s of
        [] \<Rightarrow> Some 0
      | e # r \<Rightarrow>
          (if e = CHR ''e'' \<or> e = CHR ''E'' then
             (let sg = (if r \<noteq> [] \<and> (hd r = CHR ''+'' \<or> hd r = CHR ''-'') then 1 else 0);
                  k = countDigits (drop sg r)
              in if k = 0 then None else Some (1 + sg + k))
           else Some 0))"

definition scanFraction :: "string \<Rightarrow> nat option" where
  "scanFraction s =
     (case s of
        [] \<Rightarrow> Some 0
      | d # r \<Rightarrow>
          (if d = CHR ''.'' then
             (let k = countDigits r
              in if k = 0 then None
                 else map_option (\<lambda>n. 1 + k + n) (scanExponent (drop k r)))
           else scanExponent s))"

definition scanNumber :: "string \<Rightarrow> nat option" where
  \<comment> \<open>the length of the number at the head of the input: an optional minus sign, \<open>0\<close> or
      a digit run that does not start with \<open>0\<close>, an optional fraction, an optional
      exponent\<close>
  "scanNumber s =
     (let m = (if s \<noteq> [] \<and> hd s = CHR ''-'' then 1 else 0);
          s1 = drop m s
      in case s1 of
           [] \<Rightarrow> None
         | d # r \<Rightarrow>
             (if d = CHR ''0'' then map_option (\<lambda>n. m + 1 + n) (scanFraction r)
              else if isDigit d then
                (let k = countDigits r
                 in map_option (\<lambda>n. m + 1 + k + n) (scanFraction (drop k r)))
              else None))"

fun tokenize :: "string \<Rightarrow> jtoken list option" where
  "tokenize [] = Some []"
| "tokenize (c # cs) =
     (if isJsonSpace c then tokenize cs
      else if c = CHR ''{'' then map_option (Cons LBrace) (tokenize cs)
      else if c = CHR ''}'' then map_option (Cons RBrace) (tokenize cs)
      else if c = CHR ''['' then map_option (Cons LBracket) (tokenize cs)
      else if c = CHR '']'' then map_option (Cons RBracket) (tokenize cs)
      else if c = CHR '':'' then map_option (Cons Colon) (tokenize cs)
      else if c = CHR '','' then map_option (Cons Comma) (tokenize cs)
      else if c = CHR 0x22 then
        (case scanString cs of
           None \<Rightarrow> None
         | Some n \<Rightarrow> map_option (Cons TString) (tokenize (drop n cs)))
      else if c = CHR ''-'' \<or> isDigit c then
        (case scanNumber (c # cs) of
           None \<Rightarrow> None
         | Some n \<Rightarrow> map_option (Cons TScalar) (tokenize (drop (n - 1) cs)))
      else if prefix ''true'' (c # cs) then map_option (Cons TScalar) (tokenize (drop 3 cs))
      else if prefix ''false'' (c # cs) then map_option (Cons TScalar) (tokenize (drop 4 cs))
      else if prefix ''null'' (c # cs) then map_option (Cons TScalar) (tokenize (drop 3 cs))
      else None)"

datatype jcontainer = InObject | InArray

datatype jstate =
    ExpectValue         \<comment> \<open>at the start, after a colon, after a comma in an array\<close>
  | ExpectValueOrEnd    \<comment> \<open>after \<open>[\<close>\<close>
  | ExpectKeyOrEnd      \<comment> \<open>after \<open>{\<close>\<close>
  | ExpectKey           \<comment> \<open>after a comma in an object\<close>
  | ExpectColon
  | AfterValue

fun acceptValue :: "jcontainer list \<Rightarrow> jtoken \<Rightarrow> (jstate \<times> jcontainer list) option" where
  "acceptValue stack TString = Some (AfterValue, stack)"
| "acceptValue stack TScalar = Some (AfterValue, stack)"
| "acceptValue stack LBrace = Some (ExpectKeyOrEnd, InObject # stack)"
| "acceptValue stack LBracket = Some (ExpectValueOrEnd, InArray # stack)"
| "acceptValue stack t = None"

fun jstep :: "jstate \<times> jcontainer list \<Rightarrow> jtoken \<Rightarrow> (jstate \<times> jcontainer list) option" where
  "jstep (ExpectValue, stack) t = acceptValue stack t"
| "jstep (ExpectValueOrEnd, stack) t =
     (if t = RBracket then Some (AfterValue, tl stack) else acceptValue stack t)"
| "jstep (ExpectKeyOrEnd, stack) t =
     (if t = RBrace then Some (AfterValue, tl stack)
      else if t = TString then Some (ExpectColon, stack) else None)"
| "jstep (ExpectKey, stack) t = (if t = TString then Some (ExpectColon, stack) else None)"
| "jstep (ExpectColon, stack) t = (if t = Colon then Some (ExpectValue, stack) else None)"
| "jstep (AfterValue, stack) t =
     (case stack of
        [] \<Rightarrow> None
      | InObject # rest \<Rightarrow>
          (if t = Comma then Some (ExpectKey, stack)
           else if t = RBrace then Some (AfterValue, rest) else None)
      | InArray # rest \<Rightarrow>
          (if t = Comma then Some (ExpectValue, stack)
           else if t = RBracket then Some (AfterValue, rest) else None))"

fun jrun :: "jstate \<times> jcontainer list \<Rightarrow> jtoken list \<Rightarrow> bool" where
  "jrun cfg [] = (cfg = (AfterValue, []))"
| "jrun cfg (t # ts) = (case jstep cfg t of None \<Rightarrow> False | Some cfg' \<Rightarrow> jrun cfg' ts)"

definition jsonParses :: "string \<Rightarrow> bool" where
  \<comment> \<open>\<open>JSON.parse(text)\<close> returns (rather than throws)\<close>
  "jsonParses text =
     (case tokenize text of None \<Rightarrow> False | Some ts \<Rightarrow> jrun (ExpectValue, []) ts)"

section \<open>Completion provider and host\<close>

text \<open>
  The completion provider, the clock, the identifier generator and the engine that
  compiles a user-supplied regular expression are outside the repository's logic. The
  model takes them as a record of functions; the provider, the clock and the generator
  are indexed by a logical tick, so that two calls may answer differently.
\<close>

record token_usage =
  t_input :: int
  t_output :: int
  t_total :: int

record llm_result =
  content :: string
  tokens :: token_usage
  cost :: real

record host =
  unbound_call :: "nat \<Rightarrow> string \<Rightarrow> string \<Rightarrow> string \<Rightarrow> string + llm_result"
    \<comment> \<open>\<open>UnboundService.call(prompt, model, context)\<close> at a tick: the error message of
        the exception it throws, or its result\<close>
  new_RegExp :: "string \<Rightarrow> string \<Rightarrow> string + (string \<Rightarrow> bool)"
    \<comment> \<open>\<open>new RegExp(pattern, flags)\<close>: the message of the SyntaxError, or the \<open>test\<close>
        function of the compiled expression\<close>
  uuidv4 :: "nat \<Rightarrow> string"
  now :: "nat \<Rightarrow> string"
    \<comment> \<open>\<open>new Date().toISOString()\<close> at a tick\<close>

section \<open>Criteria evaluator\<close>

record verdict =
  passed :: bool
  reason :: string

definition evaluateContains :: "string \<Rightarrow> string \<Rightarrow> verdict" where
  "evaluateContains outp val =
     (if val = [] then \<lparr>passed = True, reason = ''No value to check''\<rparr>
      else
        (let contains = includes_str (toLowerCase outp) (toLowerCase val)
         in \<lparr>passed = contains,
             reason = (if contains then ''Output contains \"'' @ val @ ''\"''
                       else ''Output does not contain \"'' @ val @ ''\"'')\<rparr>))"

definition evaluateNotContains :: "string \<Rightarrow> string \<Rightarrow> verdict" where
  "evaluateNotContains outp val =
     (if val = [] then \<lparr>passed = True, reason = ''No value to check''\<rparr>
      else
        (let contains = includes_str (toLowerCase outp) (toLowerCase val)
         in \<lparr>passed = \<not> contains,
             reason = (if \<not> contains then ''Output does not contain \"'' @ val @ ''\"''
                       else ''Output contains \"'' @ val @ ''\" (should not)'')\<rparr>))"

definition evaluateRegex :: "host \<Rightarrow> string \<Rightarrow> string \<Rightarrow> verdict" where
  "evaluateRegex h outp pattern =
     (if pattern = [] then \<lparr>passed = True, reason = ''No pattern to match''\<rparr>
      else
        (case new_RegExp h pattern ''im'' of
           Inl message \<Rightarrow> \<lparr>passed = False, reason = ''Invalid regex pattern: '' @ message\<rparr>
         | Inr test \<Rightarrow>
             (let matches = test outp
              in \<lparr>passed = matches,
                  reason = (if matches then ''Output matches pattern \"'' @ pattern @ ''\"''
                            else ''Output does not match pattern \"'' @ pattern @ ''\"'')\<rparr>)))"

definition jsonPatterns :: "regex list" where
  "jsonPatterns =
     [lit ''```json'' @ [Atom Space Star, GroupOpen, Atom AnyChar LazyStar, GroupClose, Atom Space Star]
        @ lit ''```'',
      lit ''```'' @ [Atom Space Star, GroupOpen, Atom AnyChar LazyStar, GroupClose, Atom Space Star]
        @ lit ''```'',
      [GroupOpen, Atom (Ch CHR ''{'') Once, Atom AnyChar Star, Atom (Ch CHR ''}'') Once, GroupClose],
      [GroupOpen, Atom (Ch CHR ''['') Once, Atom AnyChar Star, Atom (Ch CHR '']'') Once, GroupClose]]"

fun tryJsonPatterns :: "regex list \<Rightarrow> string \<Rightarrow> bool" where
  \<comment> \<open>the \<open>for\<close> loop of \<open>evaluateJson\<close>: true when it returns from inside the loop\<close>
  "tryJsonPatterns [] outp = False"
| "tryJsonPatterns (pattern # rest) outp =
     (case regexExec pattern outp of
        Some (m0, m1) \<Rightarrow> (if jsonParses m1 then True else tryJsonPatterns rest outp)
      | None \<Rightarrow> tryJsonPatterns rest outp)"

definition evaluateJson :: "string \<Rightarrow> verdict" where
  "evaluateJson outp =
     (if tryJsonPatterns jsonPatterns outp
      then \<lparr>passed = True, reason = ''Valid JSON found in output''\<rparr>
      else if jsonParses outp
      then \<lparr>passed = True, reason = ''Output is valid JSON''\<rparr>
      else \<lparr>passed = False, reason = ''No valid JSON found in output''\<rparr>)"

definition codeBlockPattern :: regex where
  "codeBlockPattern = lit ''```'' @ [Atom AnyChar LazyStar] @ lit ''```''"

definition codePatterns :: "regex list" where
  \<comment> \<open>the five patterns tried when the output has no fence; the three alternatives of
      the last one are listed one by one\<close>
  "codePatterns =
     [lit ''def'' @ [Atom Space Plus, Atom Word Plus, Atom Space Star, Atom (Ch CHR ''('') Once],
      lit ''function'' @ [Atom Space Plus, Atom Word Plus, Atom Space Star, Atom (Ch CHR ''('') Once],
      lit ''class'' @ [Atom Space Plus, Atom Word Plus],
      lit ''import'' @ [Atom Space Plus],
      lit ''const'' @ [Atom Space Plus],
      lit ''let'' @ [Atom Space Plus],
      lit ''var'' @ [Atom Space Plus]]"

definition evaluateCode :: "host \<Rightarrow> string \<Rightarrow> string \<Rightarrow> string + verdict" where
  \<comment> \<open>\<open>Inl\<close> is the message of the SyntaxError that \<open>new RegExp\<close> throws on a language
      tag that is no regular expression; nothing in \<open>evaluateCode\<close> catches it.\<close>
  "evaluateCode h outp language =
     (let codeBlocks = matchAll codeBlockPattern outp
      in if codeBlocks = [] then
           (let hasCode = list_ex (\<lambda>p. regexExec p outp \<noteq> None) codePatterns
            in Inr \<lparr>passed = hasCode,
                    reason = (if hasCode then ''Code detected in output''
                              else ''No code blocks or patterns found'')\<rparr>)
         else if language \<noteq> [] then
           (case new_RegExp h (''```'' @ language) ''i'' of
              Inl message \<Rightarrow> Inl message
            | Inr test \<Rightarrow>
                (let hasLang = list_ex test codeBlocks
                 in Inr \<lparr>passed = hasLang,
                         reason = (if hasLang then language @ '' code block found''
                                   else ''No '' @ language @ '' code block found'')\<rparr>))
         else Inr \<lparr>passed = True,
                   reason = ''Found '' @ natToString (length codeBlocks) @ '' code block(s)''\<rparr>)"

definition evaluateLengthMin :: "string \<Rightarrow> string \<Rightarrow> verdict" where
  "evaluateLengthMin outp minLength =
     (let min = orElse (parseInt minLength) (Num 0);
          passed = lengthGe (length outp) min
      in \<lparr>passed = passed,
          reason = (if passed
                    then ''Output length ('' @ natToString (length outp) @ '') meets minimum (''
                           @ numberToString min @ '')''
                    else ''Output too short ('' @ natToString (length outp) @ '' < ''
                           @ numberToString min @ '')'')\<rparr>)"

definition evaluateLengthMax :: "string \<Rightarrow> string \<Rightarrow> verdict" where
  "evaluateLengthMax outp maxLength =
     (let max = orElse (parseInt maxLength) PosInfinity;
          passed = lengthLe (length outp) max
      in \<lparr>passed = passed,
          reason = (if passed
                    then ''Output length ('' @ natToString (length outp) @ '') within maximum (''
                           @ numberToString max @ '')''
                    else ''Output too long ('' @ natToString (length outp) @ '' > ''
                           @ numberToString max @ '')'')\<rparr>)"

definition evaluationPrompt :: "string \<Rightarrow> string \<Rightarrow> string" where
  "evaluationPrompt criteria outp =
     ''You are evaluating whether an AI response meets specific criteria.''
     @ [CHR 0x0A, CHR 0x0A] @ ''CRITERIA: '' @ criteria
     @ [CHR 0x0A, CHR 0x0A] @ ''RESPONSE TO EVALUATE:'' @ [CHR 0x0A] @ outp
     @ [CHR 0x0A, CHR 0x0A]
     @ ''Does this response meet the criteria? Reply with ONLY \"PASS\" or \"FAIL\" followed by a brief explanation.''"

definition evaluateLLM ::
  "string \<Rightarrow> string \<Rightarrow> (string \<Rightarrow> string \<Rightarrow> string + llm_result) option \<Rightarrow> verdict" where
  "evaluateLLM outp criteria llmCall =
     (case llmCall of
        None \<Rightarrow> \<lparr>passed = False, reason = ''LLM evaluation not available''\<rparr>
      | Some call \<Rightarrow>
          (case call (evaluationPrompt criteria outp) ''gpt-4o-mini'' of
             Inl message \<Rightarrow> \<lparr>passed = False, reason = ''LLM evaluation failed: '' @ message\<rparr>
           | Inr result \<Rightarrow>
               \<lparr>passed = startsWith (toUpperCase (content result)) ''PASS'',
                reason = content result\<rparr>))"

definition evaluateCriteria ::
  "host \<Rightarrow> string \<Rightarrow> string \<Rightarrow> string
     \<Rightarrow> (string \<Rightarrow> string \<Rightarrow> string + llm_result) option \<Rightarrow> string + verdict" where
  \<comment> \<open>\<open>Inr\<close> is the verdict the promise resolves to, \<open>Inl\<close> the message of the error it
      rejects with\<close>
  "evaluateCriteria h outp criteriaType criteriaValue llmCall =
     (if outp = [] then Inr \<lparr>passed = False, reason = ''No output received''\<rparr>
      else if criteriaType = ''contains'' then Inr (evaluateContains outp criteriaValue)
      else if criteriaType = ''not_contains'' then Inr (evaluateNotContains outp criteriaValue)
      else if criteriaType = ''regex'' then Inr (evaluateRegex h outp criteriaValue)
      else if criteriaType = ''json'' then Inr (evaluateJson outp)
      else if criteriaType = ''code'' then evaluateCode h outp criteriaValue
      else if criteriaType = ''length_min'' then Inr (evaluateLengthMin outp criteriaValue)
      else if criteriaType = ''length_max'' then Inr (evaluateLengthMax outp criteriaValue)
      else if criteriaType = ''llm'' then Inr (evaluateLLM outp criteriaValue llmCall)
      else if criteriaType = ''always'' then Inr \<lparr>passed = True, reason = ''Always passes''\<rparr>
      else Inr \<lparr>passed = True, reason = ''No criteria specified, auto-pass''\<rparr>)"

section \<open>Context extractor\<close>

definition fenceOpenPattern :: regex where
  \<comment> \<open>three backquotes, a run of word characters, an optional line feed\<close>
  "fenceOpenPattern = lit ''```'' @ [Atom Word Star, Atom (Ch (CHR 0x0A)) Opt]"

definition paragraphBreak :: regex where
  \<comment> \<open>two or more line feeds\<close>
  "paragraphBreak = [Atom (Ch (CHR 0x0A)) Once, Atom (Ch (CHR 0x0A)) Plus]"

definition extractContext :: "string \<Rightarrow> string \<Rightarrow> string" where
  "extractContext outp mode =
     (if outp = [] then []
      else if mode = ''full'' then outp
      else if mode = ''code_only'' then
        (let codeBlocks = matchAll codeBlockPattern outp
         in if codeBlocks \<noteq> []
            then join [CHR 0x0A, CHR 0x0A]
                   (map (\<lambda>block. trim (replaceAll fenceOpenPattern [] block)) codeBlocks)
            else outp)
      else if mode = ''last_paragraph'' then
        (let paragraphs = filter (\<lambda>p. trim p \<noteq> []) (split paragraphBreak outp)
         in if paragraphs = [] \<or> last paragraphs = [] then outp else last paragraphs)
      else if mode = ''first_paragraph'' then
        (let paras = filter (\<lambda>p. trim p \<noteq> []) (split paragraphBreak outp)
         in if paras = [] \<or> hd paras = [] then outp else hd paras)
      else if mode = ''summary'' then
        (if length outp \<le> 500 then outp else take 500 outp @ ''...'')
      else outp)"

section \<open>Persistence\<close>

text \<open>
  \<open>db/schema.js\<close> keeps four arrays in memory and writes them to a file after every
  change; the model keeps the arrays. They are fields of the one \<open>state\<close> record, next
  to the executor's own fields and the tick of the host.
\<close>

record workflow =
  wf_id :: string
  wf_name :: string
  wf_description :: string
  wf_created_at :: string
  wf_updated_at :: string

record step =
  s_id :: string
  s_workflow_id :: string
  s_order_index :: int
  s_name :: string
  s_model :: string
  s_prompt :: string
  s_criteria_type :: string
  s_criteria_value :: string
  s_retry_limit :: int
  s_context_mode :: string

record run =
  r_id :: string
  r_workflow_id :: string
  r_status :: string
  r_started_at :: string
  r_completed_at :: "string option"
  r_total_cost :: real
  r_total_tokens :: int

record step_execution =
  se_id :: string
  se_run_id :: string
  se_step_id :: string
  se_status :: string
  se_attempts :: int
  se_input_context :: "string option"
  se_output :: "string option"
  se_error :: "string option"
  se_tokens_used :: int
  se_cost :: real
  se_started_at :: "string option"
  se_completed_at :: "string option"

record active_run =
  workflowId :: string
  status :: string

datatype event =
    step_started string nat string                 \<comment> \<open>stepId, stepIndex, stepName\<close>
  | step_attempt string int int                    \<comment> \<open>stepId, attempt, maxAttempts\<close>
  | step_response string string token_usage real   \<comment> \<open>stepId, output, tokens, cost\<close>
  | step_evaluated string bool string              \<comment> \<open>stepId, passed, reason\<close>
  | step_error string string                       \<comment> \<open>stepId, error\<close>
  | step_completed string nat bool "string option" \<comment> \<open>stepId, stepIndex, passed, error\<close>
  | run_completed string string "string option" real int
      \<comment> \<open>runId, status, error, totalCost, totalTokens\<close>

record state =
  workflows :: "workflow list"
  steps :: "step list"
  runs :: "run list"
  step_executions :: "step_execution list"
  activeRuns :: "string \<rightharpoonup> active_run"
  wsServer :: bool
  sent :: "(string \<times> event) list"
    \<comment> \<open>the messages handed to the web-socket server, oldest first\<close>
  tick :: nat

fun updateFirst :: "('a \<Rightarrow> bool) \<Rightarrow> ('a \<Rightarrow> 'a) \<Rightarrow> 'a list \<Rightarrow> 'a list" where
  \<comment> \<open>\<open>i = xs.findIndex(P); if (i === -1) return null; xs[i] = f(xs[i])\<close>\<close>
  "updateFirst P f [] = []"
| "updateFirst P f (x # xs) = (if P x then f x # xs else x # updateFirst P f xs)"

definition getWorkflow :: "state \<Rightarrow> string \<Rightarrow> workflow option" where
  "getWorkflow st ident = find (\<lambda>w. wf_id w = ident) (workflows st)"

definition getWorkflowSteps :: "state \<Rightarrow> string \<Rightarrow> step list" where
  "getWorkflowSteps st wid =
     sort_key s_order_index (filter (\<lambda>s. s_workflow_id s = wid) (steps st))"

definition createRun :: "host \<Rightarrow> string \<Rightarrow> state \<Rightarrow> run \<times> state" where
  "createRun h wid st =
     (let run = \<lparr>r_id = uuidv4 h (tick st), r_workflow_id = wid, r_status = ''running'',
                 r_started_at = now h (tick st), r_completed_at = None,
                 r_total_cost = 0, r_total_tokens = 0\<rparr>
      in (run, st\<lparr>runs := runs st @ [run], tick := tick st + 1\<rparr>))"

definition updateRun :: "string \<Rightarrow> (run \<Rightarrow> run) \<Rightarrow> state \<Rightarrow> state" where
  "updateRun ident updates st = st\<lparr>runs := updateFirst (\<lambda>r. r_id r = ident) updates (runs st)\<rparr>"

definition createStepExecution :: "host \<Rightarrow> string \<Rightarrow> string \<Rightarrow> state \<Rightarrow> step_execution \<times> state" where
  "createStepExecution h runId stepId st =
     (let execution = \<lparr>se_id = uuidv4 h (tick st), se_run_id = runId, se_step_id = stepId,
                       se_status = ''pending'', se_attempts = 0, se_input_context = None,
                       se_output = None, se_error = None, se_tokens_used = 0, se_cost = 0,
                       se_started_at = None, se_completed_at = None\<rparr>
      in (execution, st\<lparr>step_executions := step_executions st @ [execution], tick := tick st + 1\<rparr>))"

definition getStepExecution :: "state \<Rightarrow> string \<Rightarrow> string \<Rightarrow> step_execution option" where
  "getStepExecution st runId stepId =
     find (\<lambda>se. se_run_id se = runId \<and> se_step_id se = stepId) (step_executions st)"

definition updateStepExecution :: "string \<Rightarrow> (step_execution \<Rightarrow> step_execution) \<Rightarrow> state \<Rightarrow> state" where
  "updateStepExecution ident updates st =
     st\<lparr>step_executions := updateFirst (\<lambda>se. se_id se = ident) updates (step_executions st)\<rparr>"

definition getRun :: "state \<Rightarrow> string \<Rightarrow> run option" where
  \<comment> \<open>the run record (the source returns a copy with the name of the workflow added)\<close>
  "getRun st ident = find (\<lambda>r. r_id r = ident) (runs st)"

section \<open>Run execution engine\<close>

text \<open>
  The methods of \<open>WorkflowExecutor\<close> become functions on the state. \<open>broadcast\<close> records
  the event handed to the web-socket server (without the time stamp it adds); what the
  server's clients receive is theirs. The one-second pause between two attempts takes
  time and changes nothing, and is left out. Every reading of the clock, every drawing
  of an identifier and every call of the provider advances the tick.
\<close>

definition broadcast :: "string \<Rightarrow> event \<Rightarrow> state \<Rightarrow> state" where
  "broadcast runId ev st = (if \<not> wsServer st then st else st\<lparr>sent := sent st @ [(runId, ev)]\<rparr>)"

definition completeRun :: "host \<Rightarrow> string \<Rightarrow> real \<Rightarrow> int \<Rightarrow> state \<Rightarrow> state" where
  "completeRun h runId totalCost totalTokens st =
     (let st1 = updateRun runId
                  (\<lambda>r. r\<lparr>r_status := ''completed'', r_completed_at := Some (now h (tick st)),
                          r_total_cost := totalCost, r_total_tokens := totalTokens\<rparr>)
                  (st\<lparr>tick := tick st + 1\<rparr>);
          st2 = st1\<lparr>activeRuns := (activeRuns st1)(runId := None)\<rparr>
      in broadcast runId (run_completed runId ''completed'' None totalCost totalTokens) st2)"

definition failRun :: "host \<Rightarrow> string \<Rightarrow> string \<Rightarrow> real \<Rightarrow> int \<Rightarrow> state \<Rightarrow> state" where
  "failRun h runId error totalCost totalTokens st =
     (let st1 = updateRun runId
                  (\<lambda>r. r\<lparr>r_status := ''failed'', r_completed_at := Some (now h (tick st)),
                          r_total_cost := totalCost, r_total_tokens := totalTokens\<rparr>)
                  (st\<lparr>tick := tick st + 1\<rparr>);
          st2 = st1\<lparr>activeRuns := (activeRuns st1)(runId := None)\<rparr>
      in broadcast runId (run_completed runId ''failed'' (Some error) totalCost totalTokens) st2)"

definition getRunStatus :: "state \<Rightarrow> string \<Rightarrow> active_run option" where
  "getRunStatus st runId = activeRuns st runId"

subsection \<open>One attempt\<close>

definition renderPrompt :: "string \<Rightarrow> string \<Rightarrow> string" where
  \<comment> \<open>the \<open>prompt\<close> handed to the provider\<close>
  "renderPrompt prompt previousContext =
     (if previousContext \<noteq> [] \<and> includes_str prompt ''{context}''
      then replaceAll (lit ''{context}'') previousContext prompt
      else prompt)"

definition contextToPass :: "string \<Rightarrow> string \<Rightarrow> string" where
  \<comment> \<open>the third argument of the provider call, from the rendered prompt\<close>
  "contextToPass prompt previousContext =
     (if includes_str prompt previousContext then [] else previousContext)"

record step_vars =
  v_passed :: bool
  v_lastOutput :: string
  v_lastError :: string
  v_stepCost :: real
  v_stepTokens :: int

definition attempt :: "host \<Rightarrow> string \<Rightarrow> step \<Rightarrow> string \<Rightarrow> step_vars \<Rightarrow> state \<Rightarrow> step_vars \<times> state" where
  \<comment> \<open>the \<open>try\<close> block of one attempt with its \<open>catch\<close>. The provider call and the judge
      call take one tick each.\<close>
  "attempt h runId step previousContext v st =
     (let prompt = renderPrompt (s_prompt step) previousContext;
          st1 = st\<lparr>tick := tick st + 2\<rparr>
      in case unbound_call h (tick st) prompt (s_model step) (contextToPass prompt previousContext) of
           Inl message \<Rightarrow>
             (v\<lparr>v_lastError := message\<rparr>, broadcast runId (step_error (s_id step) message) st1)
         | Inr result \<Rightarrow>
             (let v1 = v\<lparr>v_lastOutput := content result,
                          v_stepCost := v_stepCost v + cost result,
                          v_stepTokens := v_stepTokens v + t_total (tokens result)\<rparr>;
                  st2 = broadcast runId
                          (step_response (s_id step) (content result) (tokens result) (cost result)) st1;
                  llmEvaluator =
                    (if s_criteria_type step = ''llm''
                     then Some (\<lambda>evalPrompt model.
                                  unbound_call h (tick st + 1) evalPrompt ''kimi-k2-instruct-0905'' [])
                     else None)
              in case evaluateCriteria h (content result) (s_criteria_type step)
                        (s_criteria_value step) llmEvaluator of
                   Inl message \<Rightarrow>
                     (v1\<lparr>v_lastError := message\<rparr>, broadcast runId (step_error (s_id step) message) st2)
                 | Inr evaluation \<Rightarrow>
                     (let st3 = broadcast runId
                                  (step_evaluated (s_id step) (passed evaluation) (reason evaluation)) st2
                      in if passed evaluation then (v1\<lparr>v_passed := True\<rparr>, st3)
                         else (v1\<lparr>v_lastError := reason evaluation\<rparr>, st3))))"

subsection \<open>The retry loop of one step\<close>

function attemptLoop ::
  "host \<Rightarrow> string \<Rightarrow> step \<Rightarrow> string \<Rightarrow> int \<Rightarrow> step_vars \<Rightarrow> state \<Rightarrow> int \<times> step_vars \<times> state" where
  "attemptLoop h runId step previousContext attempts v st =
     (if \<not> v_passed v \<and> attempts < s_retry_limit step
      then (let st1 = broadcast runId
                        (step_attempt (s_id step) (attempts + 1) (s_retry_limit step)) st;
                r = attempt h runId step previousContext v st1
            in attemptLoop h runId step previousContext (attempts + 1) (fst r) (snd r))
      else (attempts, v, st))"
  by pat_completeness auto
termination
  by (relation "measure (\<lambda>(h, runId, step, previousContext, attempts, v, st).
                  nat (s_retry_limit step - attempts))") auto

declare attemptLoop.simps [simp del]

subsection \<open>The steps of a run\<close>

definition markRunning :: "string \<Rightarrow> string \<Rightarrow> step_execution \<Rightarrow> step_execution" where
  \<comment> \<open>the fields written when a step starts\<close>
  "markRunning started previousContext e =
     e\<lparr>se_status := ''running'', se_started_at := Some started,
       se_input_context := Some previousContext\<rparr>"

definition markFinished :: "string \<Rightarrow> int \<Rightarrow> step_vars \<Rightarrow> step_execution \<Rightarrow> step_execution" where
  \<comment> \<open>the fields written when the retry loop of a step is over\<close>
  "markFinished completed attempts v e =
     e\<lparr>se_status := (if v_passed v then ''passed'' else ''failed''),
       se_attempts := attempts,
       se_output := Some (v_lastOutput v),
       se_error := (if v_passed v then None else Some (v_lastError v)),
       se_tokens_used := v_stepTokens v,
       se_cost := v_stepCost v,
       se_completed_at := Some completed\<rparr>"

definition initialVars :: step_vars where
  "initialVars = \<lparr>v_passed = False, v_lastOutput = [], v_lastError = [],
                  v_stepCost = 0, v_stepTokens = 0\<rparr>"

definition runStep ::
  "host \<Rightarrow> string \<Rightarrow> nat \<Rightarrow> step \<Rightarrow> step_execution \<Rightarrow> string \<Rightarrow> state \<Rightarrow> int \<times> step_vars \<times> state" where
  \<comment> \<open>one turn of the \<open>for\<close> loop, from marking the step running to writing its final
      record\<close>
  "runStep h runId i step stepExec previousContext st =
     (let st1 = updateStepExecution (se_id stepExec)
                  (markRunning (now h (tick st)) previousContext) (st\<lparr>tick := tick st + 1\<rparr>);
          st2 = broadcast runId (step_started (s_id step) i (s_name step)) st1;
          r = attemptLoop h runId step previousContext 0 initialVars st2;
          attempts = fst r; v = fst (snd r); st3 = snd (snd r);
          st4 = updateStepExecution (se_id stepExec)
                  (markFinished (now h (tick st3)) attempts v) (st3\<lparr>tick := tick st3 + 1\<rparr>)
      in (attempts, v, st4))"

fun executeStepsFrom ::
  "host \<Rightarrow> string \<Rightarrow> nat \<Rightarrow> step list \<Rightarrow> string \<Rightarrow> real \<Rightarrow> int \<Rightarrow> state \<Rightarrow> string option \<times> state" where
  \<comment> \<open>the \<open>for\<close> loop from index \<open>i\<close> on, over the steps not yet run. The first component
      is the message of an exception that leaves \<open>executeSteps\<close>: reading \<open>.id\<close> of a
      missing step execution.\<close>
  "executeStepsFrom h runId i [] previousContext totalCost totalTokens st =
     (None, completeRun h runId totalCost totalTokens st)"
| "executeStepsFrom h runId i (step # rest) previousContext totalCost totalTokens st =
     (case getStepExecution st runId (s_id step) of
        None \<Rightarrow> (Some (''Cannot read properties of null (reading '' @ [CHR 0x27] @ ''id''
                        @ [CHR 0x27] @ '')''), st)
      | Some stepExec \<Rightarrow>
          (let r = runStep h runId i step stepExec previousContext st;
               attempts = fst r; v = fst (snd r); st4 = snd (snd r);
               totalCost' = totalCost + v_stepCost v;
               totalTokens' = totalTokens + v_stepTokens v
           in if v_passed v
              then executeStepsFrom h runId (i + 1) rest
                     (extractContext (v_lastOutput v) (s_context_mode step)) totalCost' totalTokens'
                     (broadcast runId (step_completed (s_id step) i True None) st4)
              else (None,
                    failRun h runId
                      (''Step \"'' @ s_name step @ ''\" failed: '' @ v_lastError v)
                      totalCost' totalTokens'
                      (broadcast runId
                         (step_completed (s_id step) i False (Some (v_lastError v))) st4))))"

definition executeSteps :: "host \<Rightarrow> string \<Rightarrow> step list \<Rightarrow> state \<Rightarrow> string option \<times> state" where
  "executeSteps h runId stps st = executeStepsFrom h runId 0 stps [] 0 0 st"

subsection \<open>Starting a run\<close>

definition execute :: "host \<Rightarrow> string \<Rightarrow> state \<Rightarrow> (string + string) \<times> state" where
  \<comment> \<open>\<open>execute\<close> up to its \<open>return\<close>: \<open>Inl\<close> is the message of the error thrown, \<open>Inr\<close> the
      run id. The second component is the state it leaves.\<close>
  "execute h wid st =
     (case getWorkflow st wid of
        None \<Rightarrow> (Inl ''Workflow not found'', st)
      | Some workflow \<Rightarrow>
          (let stps = getWorkflowSteps st wid
           in if length stps = 0 then (Inl ''Workflow has no steps'', st)
              else
                (let cr = createRun h wid st;
                     run = fst cr;
                     st2 = foldl (\<lambda>s stp. snd (createStepExecution h (r_id run) (s_id stp) s))
                             (snd cr) stps;
                     st3 = st2\<lparr>activeRuns :=
                                 (activeRuns st2)(r_id run \<mapsto> \<lparr>workflowId = wid, status = ''running''\<rparr>)\<rparr>
                 in (Inr (r_id run), st3))))"

definition background :: "host \<Rightarrow> string \<Rightarrow> step list \<Rightarrow> state \<Rightarrow> state" where
  \<comment> \<open>the work \<open>execute\<close> leaves behind:
      \<open>this.executeSteps(run.id, steps).catch(error => this.failRun(run.id, error.message))\<close>\<close>
  "background h runId stps st =
     (case executeSteps h runId stps st of
        (None, st') \<Rightarrow> st'
      | (Some message, st') \<Rightarrow> failRun h runId message 0 0 st')"

definition executeToEnd :: "host \<Rightarrow> string \<Rightarrow> state \<Rightarrow> (string + string) \<times> state" where
  \<comment> \<open>a run from the call of \<open>execute\<close> to the end of its background work, with nothing
      else touching the state in between\<close>
  "executeToEnd h wid st =
     (case execute h wid st of
        (Inl message, st') \<Rightarrow> (Inl message, st')
      | (Inr runId, st') \<Rightarrow> (Inr runId, background h runId (getWorkflowSteps st wid) st'))"

section \<open>The substitution in the words of the specification\<close>


section \<open>Notions used in the properties of a run\<close>

definition nextAttempt ::
  "host \<Rightarrow> string \<Rightarrow> step \<Rightarrow> string \<Rightarrow> int \<Rightarrow> step_vars \<Rightarrow> state \<Rightarrow> step_vars \<times> state" where
  \<comment> \<open>one turn of the retry loop: the \<open>step_attempt\<close> event, then the attempt\<close>
  "nextAttempt h runId step previousContext attempts v st =
     attempt h runId step previousContext v
       (broadcast runId (step_attempt (s_id step) (attempts + 1) (s_retry_limit step)) st)"

definition sameData :: "state \<Rightarrow> state \<Rightarrow> bool" where
  \<comment> \<open>the two states differ at most in the messages sent and in the tick\<close>
  "sameData st st' \<longleftrightarrow>
     workflows st' = workflows st \<and> steps st' = steps st \<and> runs st' = runs st \<and>
     step_executions st' = step_executions st \<and> activeRuns st' = activeRuns st \<and>
     wsServer st' = wsServer st"

definition passingOutput :: "host \<Rightarrow> step \<Rightarrow> string \<Rightarrow> bool" where
  \<comment> \<open>the text is the content of an answer of the provider for the model of the step,
      and the criterion of the step passes on it\<close>
  "passingOutput h step outp \<longleftrightarrow>
     (\<exists>t prompt context result llmCall evaluation.
        unbound_call h t prompt (s_model step) context = Inr result \<and> content result = outp \<and>
        evaluateCriteria h outp (s_criteria_type step) (s_criteria_value step) llmCall
          = Inr evaluation \<and> passed evaluation)"

fun stepTrace :: "host \<Rightarrow> string \<Rightarrow> step list \<Rightarrow> step_execution list \<Rightarrow> bool" where
  \<comment> \<open>the step executions of a run that was started with the context \<open>ctx\<close>, read
      against its steps: passed steps hand their extracted context on, a failed step is
      the last one touched\<close>
  "stepTrace h ctx [] es = (es = [])"
| "stepTrace h ctx (s # ss) [] = False"
| "stepTrace h ctx (s # ss) (e # es) =
     (se_step_id e = s_id s \<and> se_input_context e = Some ctx \<and>
      (0 < s_retry_limit s \<longrightarrow> 1 \<le> se_attempts e \<and> se_attempts e \<le> s_retry_limit s) \<and>
      (if se_status e = ''passed''
       then (\<exists>outp. se_output e = Some outp \<and> passingOutput h s outp \<and>
                    stepTrace h (extractContext outp (s_context_mode s)) ss es)
       else se_status e = ''failed'' \<and> map se_step_id es = map s_id ss \<and>
            list_all (\<lambda>e'. se_status e' = ''pending'' \<and> se_input_context e' = None) es))"

definition runOutcome :: "step_execution list \<Rightarrow> string" where
  "runOutcome es = (if list_all (\<lambda>e. se_status e = ''passed'') es then ''completed'' else ''failed'')"

definition pendingExecution :: "string \<Rightarrow> string \<Rightarrow> string \<Rightarrow> step_execution" where
  \<comment> \<open>the record \<open>createStepExecution\<close> appends\<close>
  "pendingExecution ident runId stepId =
     \<lparr>se_id = ident, se_run_id = runId, se_step_id = stepId,
      se_status = ''pending'', se_attempts = 0, se_input_context = None,
      se_output = None, se_error = None, se_tokens_used = 0, se_cost = 0,
      se_started_at = None, se_completed_at = None\<rparr>"

definition newExecutions :: "host \<Rightarrow> string \<Rightarrow> nat \<Rightarrow> step list \<Rightarrow> step_execution list" where
  \<comment> \<open>the records \<open>execute\<close> appends for the steps, the first at tick \<open>t\<close>\<close>
  "newExecutions h runId t stps =
     map (\<lambda>(k, stp). pendingExecution (uuidv4 h k) runId (s_id stp)) (enumerate t stps)"

definition freshIds :: "host \<Rightarrow> state \<Rightarrow> nat \<Rightarrow> bool" where
  \<comment> \<open>what is assumed of \<open>uuidv4\<close> when a run with \<open>n\<close> steps starts: the identifiers of
      the \<open>n\<close> new step executions differ from each other and from those of the step
      executions at hand, and no step execution at hand belongs to the new run\<close>
  "freshIds h st n \<longleftrightarrow>
     distinct (map (uuidv4 h) [tick st + 1 ..< tick st + 1 + n]) \<and>
     list_all (\<lambda>e. se_run_id e \<noteq> uuidv4 h (tick st) \<and>
                    se_id e \<notin> set (map (uuidv4 h) [tick st + 1 ..< tick st + 1 + n]))
       (step_executions st)"

definition runExecs :: "state \<Rightarrow> string \<Rightarrow> step_execution list" where
  \<comment> \<open>the step executions of a run, in the order of the array\<close>
  "runExecs st runId = filter (\<lambda>e. se_run_id e = runId) (step_executions st)"

definition runStatusOf :: "state \<Rightarrow> string \<Rightarrow> string option" where
  "runStatusOf st runId = map_option r_status (getRun st runId)"

text \<open>
  Runs overlap in time: the background work of one run is cut at every call of the
  provider, and other runs, started or under way, go on in between. \<open>engineState\<close>
  holds of every state an executor passes through, whatever the interleaving: the state
  it is constructed in has an empty table of active runs, and every later state comes
  from one more call of \<open>execute\<close> or one more write of the background work. The run
  identifier \<open>execute\<close> draws is assumed new among the runs.
\<close>

inductive engineState :: "host \<Rightarrow> state \<Rightarrow> bool" for h :: host where
  constructed: "activeRuns st = Map.empty \<Longrightarrow> engineState h st"
| executed: "engineState h st \<Longrightarrow> uuidv4 h (tick st) \<notin> set (map r_id (runs st)) \<Longrightarrow>
     engineState h (snd (execute h wid st))"
| step_written: "engineState h st \<Longrightarrow> engineState h (updateStepExecution ident updates st)"
| broadcasted: "engineState h st \<Longrightarrow> engineState h (broadcast runId ev st)"
| ticked: "engineState h st \<Longrightarrow> engineState h (st\<lparr>tick := t\<rparr>)"
| completed: "engineState h st \<Longrightarrow> engineState h (completeRun h runId totalCost totalTokens st)"
| failed: "engineState h st \<Longrightarrow> engineState h (failRun h runId error totalCost totalTokens st)"

definition activeAreRunning :: "state \<Rightarrow> bool" where
  "activeAreRunning st \<longleftrightarrow>
     (\<forall>runId entry. activeRuns st runId = Some entry \<longrightarrow>
        status entry = ''running'' \<and> (\<forall>r. getRun st runId = Some r \<longrightarrow> r_status r = ''running''))"

section \<open>Example host and states\<close>

definition demoHost :: host where
  "demoHost =
     \<lparr>unbound_call = (\<lambda>t prompt model context.
                        if model = ''down'' then Inl ''Network Error''
                        else Inr \<lparr>content = ''echo '' @ prompt,
                                  tokens = \<lparr>t_input = 3, t_output = 4, t_total = 7\<rparr>,
                                  cost = 1\<rparr>),
      new_RegExp = (\<lambda>pattern flags. Inl ''Invalid regular expression''),
      uuidv4 = (\<lambda>t. ''u'' @ natToString t),
      now = (\<lambda>t. ''T'' @ natToString t)\<rparr>"

definition emptyState :: state where
  "emptyState =
     \<lparr>workflows = [], steps = [], runs = [], step_executions = [],
      activeRuns = Map.empty, wsServer = True, sent = [], tick = 0\<rparr>"

definition steplessState :: state where
  "steplessState =
     emptyState\<lparr>workflows := [\<lparr>wf_id = ''w'', wf_name = ''Hello Test'',
                                wf_description = ''Test workflow'', wf_created_at = ''T'',
                                wf_updated_at = ''T''\<rparr>]\<rparr>"

definition demoStep :: "string \<Rightarrow> string \<Rightarrow> int \<Rightarrow> string \<Rightarrow> string \<Rightarrow> string \<Rightarrow> int \<Rightarrow> step" where
  "demoStep ident wid idx prompt ctype cvalue limit =
     \<lparr>s_id = ident, s_workflow_id = wid, s_order_index = idx, s_name = ident,
      s_model = ''kimi-k2p5'', s_prompt = prompt, s_criteria_type = ctype,
      s_criteria_value = cvalue, s_retry_limit = limit, s_context_mode = ''full''\<rparr>"

definition demoState :: state where
  \<comment> \<open>the workflow \<open>w\<close> with four steps, the third of which cannot pass\<close>
  "demoState =
     steplessState\<lparr>steps :=
       [demoStep ''s1'' ''w'' 0 ''Write code'' ''always'' [] 3,
        demoStep ''s2'' ''w'' 1 ''Review: {context}'' ''contains'' ''ECHO'' 2,
        demoStep ''s3'' ''w'' 2 ''Test it'' ''length_max'' ''5'' 2,
        demoStep ''s4'' ''w'' 3 ''Ship it'' ''always'' [] 3]\<rparr>"

section \<open>Criteria evaluator: properties\<close>

text \<open>
  C4. On the empty output \<open>evaluateCriteria\<close> returns a failed verdict with the reason
  \<open>No output received\<close>, whatever the kind of the criterion (\<open>always\<close> and unknown kinds
  too), its value and the judge.
\<close>

theorem evaluateCriteria_empty_output:
  "evaluateCriteria h [] criteriaType criteriaValue llmCall
     = Inr \<lparr>passed = False, reason = ''No output received''\<rparr>"
  by (simp add: evaluateCriteria_def)

lemma parseInt_zero: "parseInt ''0'' = Num 0"
  by (simp add: parseInt_def isWhiteSpace_def isRadixDigit_def digitValue_def radixValue_def)

lemma evaluateLengthMax_passed:
  "passed (evaluateLengthMax outp maxLength) \<longleftrightarrow>
     (case parseInt maxLength of
        Num n \<Rightarrow> n = 0 \<or> int (length outp) \<le> n
      | PosInfinity \<Rightarrow> True
      | NaN \<Rightarrow> True)"
  by (simp add: evaluateLengthMax_def Let_def split: jsnumber.splits)

text \<open>
  C3, at the input where the code leaves the claim. The value \<open>0\<close> parses to the integer
  zero, \<open>parseInt(maxLength) || Infinity\<close> takes zero for a failed parse, and the
  one-character output passes \<open>length_max\<close> with the limit \<open>Infinity\<close>.
\<close>

theorem length_max_zero_is_no_limit:
  "parseInt ''0'' = Num 0 \<and>
   evaluateCriteria h ''a'' ''length_max'' ''0'' llmCall
     = Inr \<lparr>passed = True, reason = ''Output length (1) within maximum (Infinity)''\<rparr>"
  by (simp add: parseInt_zero evaluateCriteria_def evaluateLengthMax_def natToString.simps
      digitChar_def)







section \<open>Starting a run: properties\<close>

text \<open>
  C9. \<open>execute\<close> fails with \<open>Workflow not found\<close> when no workflow has the id, and with
  \<open>Workflow has no steps\<close> when the workflow has none. In both cases it leaves the state
  as it found it (no run, no step execution, no entry in the table of active runs), and
  no background work follows.
\<close>

theorem execute_precondition_failures:
  "(getWorkflow st wid = None \<longrightarrow>
      execute h wid st = (Inl ''Workflow not found'', st)
      \<and> executeToEnd h wid st = (Inl ''Workflow not found'', st))
   \<and> (getWorkflow st wid \<noteq> None \<and> getWorkflowSteps st wid = [] \<longrightarrow>
      execute h wid st = (Inl ''Workflow has no steps'', st)
      \<and> executeToEnd h wid st = (Inl ''Workflow has no steps'', st))"
  by (auto simp: execute_def executeToEnd_def)

theorem execute_precondition_failures_witness:
  "getWorkflow emptyState ''w'' = None
   \<and> execute demoHost ''w'' emptyState = (Inl ''Workflow not found'', emptyState)
   \<and> runs (snd (execute demoHost ''w'' emptyState)) = []
   \<and> getWorkflow steplessState ''w'' \<noteq> None
   \<and> getWorkflowSteps steplessState ''w'' = []
   \<and> execute demoHost ''w'' steplessState = (Inl ''Workflow has no steps'', steplessState)
   \<and> step_executions (snd (execute demoHost ''w'' steplessState)) = []"
proof -
  have a: "getWorkflow emptyState ''w'' = None"
    by (simp add: getWorkflow_def emptyState_def)
  have b: "getWorkflow steplessState ''w'' \<noteq> None"
    by (simp add: getWorkflow_def steplessState_def emptyState_def)
  have c: "getWorkflowSteps steplessState ''w'' = []"
    by (simp add: getWorkflowSteps_def steplessState_def emptyState_def)
  have d: "runs emptyState = []" "step_executions steplessState = []"
    by (simp_all add: steplessState_def emptyState_def)
  show ?thesis
    using a b c d
      execute_precondition_failures [of emptyState "''w''" demoHost]
      execute_precondition_failures [of steplessState "''w''" demoHost]
    by simp
qed

section \<open>Prompt rendering: properties\<close>

lemma includes_str_prefix: "prefix t s \<Longrightarrow> includes_str s t"
  by (cases s) auto

lemma includes_str_append: "includes_str (a @ t @ b) t"
  by (induction a) (auto intro: includes_str_prefix)

lemma rmatch_lit:
  "rmatch (lit p) s pos g = (if prefix p s then Some (pos + length p, g) else None)"
proof (induction p arbitrary: s pos)
  case Nil
  then show ?case by (simp add: lit_def)
next
  case (Cons c p)
  then show ?case by (cases s) (auto simp: lit_def)
qed













text \<open>
  Why the dollar sign is set apart: \<open>String.prototype.replace\<close> reads \<open>$&\<close> in the
  replacement as the matched text, so this previous context puts the placeholder back.
\<close>

lemma renderPrompt_dollar_pattern:
  "renderPrompt ''Fix {context}.'' ''$&'' = ''Fix {context}.''"
  by (simp add: renderPrompt_def replaceAll_def rmatch_lit)

text \<open>
  C2, at the input where the code leaves the claim. The template has no placeholder, so
  the previous context \<open>code\<close> is not folded into the prompt; but the prompt happens to
  hold the word, \<open>prompt.includes(previousContext)\<close> is true, and the provider is handed
  the empty string as its context.
\<close>

theorem contextToPass_drops_context_found_verbatim:
  "\<not> includes_str ''Write a haiku about code'' ''{context}''
   \<and> renderPrompt ''Write a haiku about code'' ''code'' = ''Write a haiku about code''
   \<and> contextToPass (renderPrompt ''Write a haiku about code'' ''code'') ''code'' = []"
  by (simp add: renderPrompt_def contextToPass_def)

section \<open>The run execution engine: lemmas\<close>

subsection \<open>Lists\<close>

lemma updateFirst_append_skip:
  "\<forall>x\<in>set xs. \<not> P x \<Longrightarrow> updateFirst P f (xs @ ys) = xs @ updateFirst P f ys"
  by (induction xs) auto

lemma find_append_skip:
  "\<forall>x\<in>set xs. \<not> P x \<Longrightarrow> find P (xs @ ys) = find P ys"
  by (induction xs) simp_all

lemma find_updateFirst_same:
  "\<forall>x. P x \<longrightarrow> P (f x) \<Longrightarrow> find P (updateFirst P f xs) = map_option f (find P xs)"
  by (induction xs) auto

lemma find_updateFirst_other:
  "\<forall>x. Q (f x) = Q x \<Longrightarrow> \<forall>x. P x \<longrightarrow> \<not> Q x \<Longrightarrow> find Q (updateFirst P f xs) = find Q xs"
  by (induction xs) auto

subsection \<open>What an attempt leaves alone\<close>

lemma sameData_refl [simp]: "sameData st st"
  by (simp add: sameData_def)

lemma sameData_trans: "sameData a b \<Longrightarrow> sameData b c \<Longrightarrow> sameData a c"
  by (simp add: sameData_def)

lemma sameData_broadcast [simp]: "sameData st (broadcast runId ev st)"
  by (simp add: sameData_def broadcast_def)

lemma sameData_broadcast' [simp]: "sameData st (broadcast runId ev st') = sameData st st'"
  by (simp add: sameData_def broadcast_def)

lemma sameData_tick [simp]: "sameData st (st'\<lparr>tick := n\<rparr>) = sameData st st'"
  by (simp add: sameData_def)

lemma sameData_attempt: "sameData st (snd (attempt h runId step previousContext v st))"
  by (simp add: attempt_def Let_def split: sum.splits)

subsection \<open>The retry loop\<close>

lemma attemptLoop_again:
  "\<not> v_passed v \<Longrightarrow> attempts < s_retry_limit step \<Longrightarrow>
     attemptLoop h runId step previousContext attempts v st =
       attemptLoop h runId step previousContext (attempts + 1)
         (fst (nextAttempt h runId step previousContext attempts v st))
         (snd (nextAttempt h runId step previousContext attempts v st))"
  by (subst attemptLoop.simps) (simp add: nextAttempt_def Let_def)

lemma attemptLoop_done:
  "v_passed v \<or> \<not> attempts < s_retry_limit step \<Longrightarrow>
     attemptLoop h runId step previousContext attempts v st = (attempts, v, st)"
  by (subst attemptLoop.simps) auto

lemma attemptLoop_induct [consumes 0, case_names stop again]:
  assumes stop: "\<And>attempts v st. v_passed v \<or> \<not> attempts < s_retry_limit step \<Longrightarrow> P attempts v st"
    and again: "\<And>attempts v st. \<not> v_passed v \<Longrightarrow> attempts < s_retry_limit step \<Longrightarrow>
           P (attempts + 1) (fst (nextAttempt h runId step previousContext attempts v st))
             (snd (nextAttempt h runId step previousContext attempts v st)) \<Longrightarrow>
           P attempts v st"
  shows "P attempts v st"
proof -
  have "nat (s_retry_limit step - a) \<le> n \<Longrightarrow> P a w x" for n a w x
  proof (induction n arbitrary: a w x)
    case 0
    show ?case
    proof (rule stop)
      show "v_passed w \<or> \<not> a < s_retry_limit step" using 0 by simp
    qed
  next
    case (Suc n)
    show ?case
    proof (cases "\<not> v_passed w \<and> a < s_retry_limit step")
      case True
      with Suc.prems have m: "nat (s_retry_limit step - (a + 1)) \<le> n"
        by simp
      show ?thesis
      proof (rule again)
        show "\<not> v_passed w" using True by simp
        show "a < s_retry_limit step" using True by simp
        show "P (a + 1) (fst (nextAttempt h runId step previousContext a w x))
                (snd (nextAttempt h runId step previousContext a w x))"
          by (rule Suc.IH [OF m])
      qed
    next
      case False
      show ?thesis
      proof (rule stop)
        show "v_passed w \<or> \<not> a < s_retry_limit step" using False by blast
      qed
    qed
  qed
  then show ?thesis by blast
qed

lemma sameData_nextAttempt:
  "sameData st (snd (nextAttempt h runId step previousContext attempts v st))"
  using sameData_attempt [of "broadcast runId (step_attempt (s_id step) (attempts + 1) (s_retry_limit step)) st"]
  by (simp add: nextAttempt_def sameData_def broadcast_def)

lemma sameData_attemptLoop:
  "sameData st (snd (snd (attemptLoop h runId step previousContext attempts v st)))"
proof (induction attempts v st rule: attemptLoop_induct [where h = h and runId = runId and step = step and previousContext = previousContext])
  case (stop attempts v st)
  then show ?case by (simp add: attemptLoop_done)
next
  case (again attempts v st)
  then show ?case
    using sameData_nextAttempt [of st h runId step previousContext attempts v]
    by (simp add: attemptLoop_again) (blast intro: sameData_trans)
qed

lemma attemptLoop_attempts:
  "attempts \<le> s_retry_limit step \<Longrightarrow>
     attempts \<le> fst (attemptLoop h runId step previousContext attempts v st) \<and>
     fst (attemptLoop h runId step previousContext attempts v st) \<le> s_retry_limit step \<and>
     (\<not> v_passed v \<and> attempts < s_retry_limit step \<longrightarrow>
        attempts + 1 \<le> fst (attemptLoop h runId step previousContext attempts v st))"
proof (induction attempts v st rule: attemptLoop_induct [where h = h and runId = runId and step = step and previousContext = previousContext])
  case (stop attempts v st)
  then show ?case by (auto simp: attemptLoop_done)
next
  case (again attempts v st)
  then show ?case by (simp add: attemptLoop_again)
qed

lemma attempt_passed:
  assumes "\<not> v_passed v" "v_passed (fst (attempt h runId step previousContext v st))"
  shows "passingOutput h step (v_lastOutput (fst (attempt h runId step previousContext v st)))"
proof -
  define prompt where "prompt = renderPrompt (s_prompt step) previousContext"
  define judge where "judge =
    (if s_criteria_type step = ''llm''
     then Some (\<lambda>evalPrompt (model :: string).
                  unbound_call h (tick st + 1) evalPrompt ''kimi-k2-instruct-0905'' [])
     else None)"
  show ?thesis
  proof (cases "unbound_call h (tick st) prompt (s_model step) (contextToPass prompt previousContext)")
    case (Inl message)
    with assms show ?thesis
      by (simp add: attempt_def prompt_def)
  next
    case (Inr result)
    show ?thesis
    proof (cases "evaluateCriteria h (content result) (s_criteria_type step) (s_criteria_value step) judge")
      case (Inl message)
      with Inr assms show ?thesis
        by (simp add: attempt_def prompt_def judge_def Let_def)
    next
      case ev: (Inr evaluation)
      with Inr assms have p: "passed evaluation"
        by (simp add: attempt_def prompt_def judge_def Let_def split: if_splits)
      with Inr ev have "v_lastOutput (fst (attempt h runId step previousContext v st)) = content result"
        by (simp add: attempt_def prompt_def judge_def Let_def)
      with Inr ev p show ?thesis
        unfolding passingOutput_def by metis
    qed
  qed
qed

lemma attemptLoop_passed:
  "v_passed v \<longrightarrow> passingOutput h step (v_lastOutput v) \<Longrightarrow>
   v_passed (fst (snd (attemptLoop h runId step previousContext attempts v st))) \<Longrightarrow>
     passingOutput h step (v_lastOutput (fst (snd (attemptLoop h runId step previousContext attempts v st))))"
proof (induction attempts v st rule: attemptLoop_induct [where h = h and runId = runId and step = step and previousContext = previousContext])
  case (stop attempts v st)
  then show ?case by (simp add: attemptLoop_done)
next
  case (again attempts v st)
  have "v_passed (fst (nextAttempt h runId step previousContext attempts v st)) \<longrightarrow>
        passingOutput h step (v_lastOutput (fst (nextAttempt h runId step previousContext attempts v st)))"
    using attempt_passed [OF again(1)] by (simp add: nextAttempt_def)
  with again show ?case by (simp add: attemptLoop_again)
qed


subsection \<open>One step\<close>

lemma runStep_data:
  fixes h runId i step stepExec previousContext st
  defines "R \<equiv> runStep h runId i step stepExec previousContext st"
  shows "\<exists>started completed.
           step_executions (snd (snd R)) =
             updateFirst (\<lambda>se. se_id se = se_id stepExec)
               (markFinished completed (fst R) (fst (snd R)))
               (updateFirst (\<lambda>se. se_id se = se_id stepExec)
                  (markRunning started previousContext) (step_executions st))"
    and "runs (snd (snd R)) = runs st"
    and "activeRuns (snd (snd R)) = activeRuns st"
proof -
  define st1 where "st1 = updateStepExecution (se_id stepExec)
      (markRunning (now h (tick st)) previousContext) (st\<lparr>tick := tick st + 1\<rparr>)"
  define st2 where "st2 = broadcast runId (step_started (s_id step) i (s_name step)) st1"
  define r where "r = attemptLoop h runId step previousContext 0 initialVars st2"
  define st3 where "st3 = snd (snd r)"
  have R: "R = (fst r, fst (snd r),
      updateStepExecution (se_id stepExec) (markFinished (now h (tick st3)) (fst r) (fst (snd r)))
        (st3\<lparr>tick := tick st3 + 1\<rparr>))"
    by (simp add: R_def runStep_def Let_def st1_def st2_def r_def st3_def)
  have same: "sameData st2 st3"
    unfolding st3_def r_def by (rule sameData_attemptLoop)
  have e1: "step_executions st2 = updateFirst (\<lambda>se. se_id se = se_id stepExec)
      (markRunning (now h (tick st)) previousContext) (step_executions st)"
    by (simp add: st2_def st1_def broadcast_def updateStepExecution_def)
  have d1: "runs st2 = runs st" "activeRuns st2 = activeRuns st"
    by (simp_all add: st2_def st1_def broadcast_def updateStepExecution_def)
  from same e1 have "step_executions (snd (snd R)) =
      updateFirst (\<lambda>se. se_id se = se_id stepExec)
        (markFinished (now h (tick st3)) (fst R) (fst (snd R)))
        (updateFirst (\<lambda>se. se_id se = se_id stepExec)
           (markRunning (now h (tick st)) previousContext) (step_executions st))"
    by (simp add: R updateStepExecution_def sameData_def)
  then show "\<exists>started completed.
           step_executions (snd (snd R)) =
             updateFirst (\<lambda>se. se_id se = se_id stepExec)
               (markFinished completed (fst R) (fst (snd R)))
               (updateFirst (\<lambda>se. se_id se = se_id stepExec)
                  (markRunning started previousContext) (step_executions st))"
    by blast
  from same d1 show "runs (snd (snd R)) = runs st" "activeRuns (snd (snd R)) = activeRuns st"
    by (simp_all add: R updateStepExecution_def sameData_def)
qed

lemma runStep_vars:
  fixes h runId i step stepExec previousContext st
  defines "R \<equiv> runStep h runId i step stepExec previousContext st"
  shows "0 < s_retry_limit step \<Longrightarrow> 1 \<le> fst R \<and> fst R \<le> s_retry_limit step"
    and "v_passed (fst (snd R)) \<Longrightarrow> passingOutput h step (v_lastOutput (fst (snd R)))"
proof -
  define st2 where "st2 = broadcast runId (step_started (s_id step) i (s_name step))
      (updateStepExecution (se_id stepExec)
         (markRunning (now h (tick st)) previousContext) (st\<lparr>tick := tick st + 1\<rparr>))"
  have R: "fst R = fst (attemptLoop h runId step previousContext 0 initialVars st2)"
    "fst (snd R) = fst (snd (attemptLoop h runId step previousContext 0 initialVars st2))"
    by (simp_all add: R_def runStep_def Let_def st2_def)
  show "0 < s_retry_limit step \<Longrightarrow> 1 \<le> fst R \<and> fst R \<le> s_retry_limit step"
    using attemptLoop_attempts [of 0 step h runId previousContext initialVars st2]
    by (simp add: R initialVars_def)
  show "v_passed (fst (snd R)) \<Longrightarrow> passingOutput h step (v_lastOutput (fst (snd R)))"
    using attemptLoop_passed [of initialVars h step runId previousContext 0 st2]
    by (simp add: R initialVars_def)
qed


subsection \<open>All steps\<close>

lemma getRun_completeRun:
  "map_option r_status (getRun (completeRun h runId c t st) runId)
     = map_option (\<lambda>r. ''completed'') (getRun st runId)"
  by (simp add: completeRun_def getRun_def updateRun_def broadcast_def Let_def
      find_updateFirst_same option.map_comp comp_def)

lemma getRun_failRun:
  "map_option r_status (getRun (failRun h runId msg c t st) runId)
     = map_option (\<lambda>r. ''failed'') (getRun st runId)"
  by (simp add: failRun_def getRun_def updateRun_def broadcast_def Let_def
      find_updateFirst_same option.map_comp comp_def)

lemma completeRun_data:
  "step_executions (completeRun h runId c t st) = step_executions st"
  "activeRuns (completeRun h runId c t st) = (activeRuns st)(runId := None)"
  by (simp_all add: completeRun_def updateRun_def broadcast_def Let_def)

lemma failRun_data:
  "step_executions (failRun h runId msg c t st) = step_executions st"
  "activeRuns (failRun h runId msg c t st) = (activeRuns st)(runId := None)"
  by (simp_all add: failRun_def updateRun_def broadcast_def Let_def)

lemma executeStepsFrom_trace:
  assumes "step_executions st = old @ todo"
    and "\<forall>e\<in>set old. se_id e \<notin> set (map se_id todo) \<and>
           \<not> (se_run_id e = runId \<and> se_step_id e \<in> set (map s_id rest))"
    and "map se_step_id todo = map s_id rest"
    and "\<forall>e\<in>set todo. se_run_id e = runId \<and> se_status e = ''pending'' \<and> se_input_context e = None"
    and "distinct (map se_id todo)" and "distinct (map s_id rest)"
  shows "\<exists>cur st'.
           executeStepsFrom h runId i rest ctx tc tt st = (None, st') \<and>
           step_executions st' = old @ cur \<and>
           stepTrace h ctx rest cur \<and>
           (\<forall>e\<in>set cur. se_run_id e = runId) \<and>
           map_option r_status (getRun st' runId)
             = map_option (\<lambda>r. runOutcome cur) (getRun st runId) \<and>
           activeRuns st' = (activeRuns st)(runId := None)"
  using assms
proof (induction rest arbitrary: st old todo ctx i tc tt)
  case Nil
  then have "todo = []" by simp
  with Nil show ?case
    by (intro exI [of _ "[]"] exI [of _ "completeRun h runId tc tt st"])
       (simp add: completeRun_data getRun_completeRun runOutcome_def)
next
  case (Cons step rest)
  from Cons.prems(3) obtain e todo' where todo: "todo = e # todo'"
    by (cases todo) auto
  with Cons.prems have e: "se_run_id e = runId" "se_step_id e = s_id step"
      "se_status e = ''pending''"
    and todo': "map se_step_id todo' = map s_id rest"
      "\<forall>x\<in>set todo'. se_run_id x = runId \<and> se_status x = ''pending'' \<and> se_input_context x = None"
      "distinct (map se_id todo')" "se_id e \<notin> set (map se_id todo')"
      "distinct (map s_id rest)" "s_id step \<notin> set (map s_id rest)"
    by auto
  have old1: "\<forall>x\<in>set old. \<not> (se_run_id x = runId \<and> se_step_id x = s_id step)"
    using Cons.prems(2) by auto
  have old2: "\<forall>x\<in>set old. \<not> se_id x = se_id e"
    using Cons.prems(2) todo by auto
  have found: "getStepExecution st runId (s_id step) = Some e"
    using Cons.prems(1) old1 e by (simp add: getStepExecution_def todo find_append_skip)
  define R where "R = runStep h runId i step e ctx st"
  define a where "a = fst R"
  define v where "v = fst (snd R)"
  define st4 where "st4 = snd (snd R)"
  from runStep_data(1) [of h runId i step e ctx st] obtain started completed where
    "step_executions st4 = updateFirst (\<lambda>se. se_id se = se_id e) (markFinished completed a v)
       (updateFirst (\<lambda>se. se_id se = se_id e) (markRunning started ctx) (step_executions st))"
    unfolding R_def a_def v_def st4_def by blast
  moreover define e' where "e' = markFinished completed a v (markRunning started ctx e)"
  ultimately have se4: "step_executions st4 = old @ e' # todo'"
    using old2 by (simp add: Cons.prems(1) todo updateFirst_append_skip markRunning_def)
  have d4: "runs st4 = runs st" "activeRuns st4 = activeRuns st"
    using runStep_data(2,3) [of h runId i step e ctx st] by (simp_all add: st4_def R_def)
  have e'_id: "se_id e' = se_id e" "se_run_id e' = runId" "se_step_id e' = s_id step"
    using e by (simp_all add: e'_def markFinished_def markRunning_def)
  have e'_val: "se_input_context e' = Some ctx" "se_attempts e' = a"
    "se_output e' = Some (v_lastOutput v)"
    "se_status e' = (if v_passed v then ''passed'' else ''failed'')"
    by (simp_all add: e'_def markFinished_def markRunning_def)
  have att: "0 < s_retry_limit step \<longrightarrow> 1 \<le> a \<and> a \<le> s_retry_limit step"
    using runStep_vars(1) [of step h runId i e ctx st] by (simp add: a_def R_def)
  have pass: "v_passed v \<longrightarrow> passingOutput h step (v_lastOutput v)"
    using runStep_vars(2) [of h runId i step e ctx st] by (simp add: v_def R_def)
  show ?case
  proof (cases "v_passed v")
    case True
    define st5 where "st5 = broadcast runId (step_completed (s_id step) i True None) st4"
    define ctx' where "ctx' = extractContext (v_lastOutput v) (s_context_mode step)"
    have eq: "executeStepsFrom h runId i (step # rest) ctx tc tt st
        = executeStepsFrom h runId (i + 1) rest ctx' (tc + v_stepCost v) (tt + v_stepTokens v) st5"
      using True found
      by (simp add: Let_def R_def [symmetric] v_def [symmetric] st4_def [symmetric] st5_def ctx'_def)
    have se5: "step_executions st5 = (old @ [e']) @ todo'"
      by (simp add: st5_def broadcast_def se4)
    have old': "\<forall>x\<in>set (old @ [e']). se_id x \<notin> set (map se_id todo') \<and>
           \<not> (se_run_id x = runId \<and> se_step_id x \<in> set (map s_id rest))"
      using Cons.prems(2) todo todo'(4,6) e'_id by auto
    from Cons.IH [OF se5 old' todo'(1) todo'(2) todo'(3) todo'(5),
        of "i + 1" ctx' "tc + v_stepCost v" "tt + v_stepTokens v"]
    obtain cur st' where IH:
      "executeStepsFrom h runId (i + 1) rest ctx' (tc + v_stepCost v) (tt + v_stepTokens v) st5
         = (None, st')"
      "step_executions st' = (old @ [e']) @ cur"
      "stepTrace h ctx' rest cur"
      "\<forall>x\<in>set cur. se_run_id x = runId"
      "map_option r_status (getRun st' runId) = map_option (\<lambda>r. runOutcome cur) (getRun st5 runId)"
      "activeRuns st' = (activeRuns st5)(runId := None)"
      by blast
    have g5: "getRun st5 runId = getRun st runId" "activeRuns st5 = activeRuns st"
      by (simp_all add: st5_def broadcast_def getRun_def d4)
    have tr: "stepTrace h ctx (step # rest) (e' # cur)"
      using True pass att IH(3) e'_id e'_val by (auto simp: ctx'_def)
    have oc: "runOutcome (e' # cur) = runOutcome cur"
      using True e'_val by (simp add: runOutcome_def)
    show ?thesis
      using eq IH(1,2,4,5,6) tr oc g5 e'_id(2)
      by (intro exI [of _ "e' # cur"] exI [of _ st']) simp
  next
    case False
    define st' where "st' = failRun h runId
        (''Step \"'' @ s_name step @ ''\" failed: '' @ v_lastError v)
        (tc + v_stepCost v) (tt + v_stepTokens v)
        (broadcast runId (step_completed (s_id step) i False (Some (v_lastError v))) st4)"
    have eq: "executeStepsFrom h runId i (step # rest) ctx tc tt st = (None, st')"
      using False found
      by (simp add: Let_def R_def [symmetric] v_def [symmetric] st4_def [symmetric] st'_def)
    have se': "step_executions st' = old @ e' # todo'"
      by (simp add: st'_def failRun_data broadcast_def se4)
    have tr: "stepTrace h ctx (step # rest) (e' # todo')"
      using False att e'_id e'_val todo'(1,2) by (auto simp: list_all_iff)
    have oc: "runOutcome (e' # todo') = ''failed''"
      using False e'_val by (simp add: runOutcome_def)
    have g: "map_option r_status (getRun st' runId) = map_option (\<lambda>r. ''failed'') (getRun st runId)"
      by (simp add: st'_def getRun_failRun) (simp add: getRun_def broadcast_def d4)
    have ar: "activeRuns st' = (activeRuns st)(runId := None)"
      by (simp add: st'_def failRun_data broadcast_def d4)
    show ?thesis
      using eq se' tr oc g ar e'_id(2) todo'(2)
      by (intro exI [of _ "e' # todo'"] exI [of _ st']) simp
  qed
qed


subsection \<open>From execute to the end of the run\<close>

lemma newExecutions_Nil [simp]: "newExecutions h runId t [] = []"
  by (simp add: newExecutions_def)

lemma newExecutions_Cons:
  "newExecutions h runId t (stp # stps) =
     pendingExecution (uuidv4 h t) runId (s_id stp) # newExecutions h runId (Suc t) stps"
  by (simp add: newExecutions_def)

lemma createStepExecution_eq:
  "createStepExecution h runId stepId st =
     (pendingExecution (uuidv4 h (tick st)) runId stepId,
      st\<lparr>step_executions := step_executions st @ [pendingExecution (uuidv4 h (tick st)) runId stepId],
         tick := tick st + 1\<rparr>)"
  by (simp add: createStepExecution_def pendingExecution_def Let_def)

lemma createStepExecutions_foldl:
  "foldl (\<lambda>s stp. snd (createStepExecution h runId (s_id stp) s)) st stps =
     st\<lparr>step_executions := step_executions st @ newExecutions h runId (tick st) stps,
        tick := tick st + length stps\<rparr>"
proof (induction stps arbitrary: st)
  case Nil
  then show ?case by simp
next
  case (Cons stp stps)
  let ?F = "\<lambda>s stp. snd (createStepExecution h runId (s_id stp) s)"
  let ?st1 = "snd (createStepExecution h runId (s_id stp) st)"
  have "foldl ?F st (stp # stps) = foldl ?F ?st1 stps" by simp
  also have "\<dots> = ?st1\<lparr>step_executions := step_executions ?st1 @ newExecutions h runId (tick ?st1) stps,
        tick := tick ?st1 + length stps\<rparr>"
    by (rule Cons)
  also have "\<dots> = st\<lparr>step_executions := step_executions st @ newExecutions h runId (tick st) (stp # stps),
        tick := tick st + length (stp # stps)\<rparr>"
    by (simp add: newExecutions_Cons createStepExecution_eq)
  finally show ?case .
qed

lemma newExecutions_step_ids: "map se_step_id (newExecutions h runId t stps) = map s_id stps"
  by (induction stps arbitrary: t) (simp_all add: newExecutions_Cons pendingExecution_def)

lemma newExecutions_ids:
  "map se_id (newExecutions h runId t stps) = map (uuidv4 h) [t ..< t + length stps]"
proof (induction stps arbitrary: t)
  case Nil
  then show ?case by simp
next
  case (Cons stp stps)
  have "[t ..< t + Suc (length stps)] = t # [Suc t ..< t + Suc (length stps)]"
    by (rule upt_conv_Cons) simp
  then have "[t ..< t + length (stp # stps)] = t # [Suc t ..< Suc t + length stps]"
    by simp
  then show ?case
    using Cons [of "Suc t"]
    by (simp add: newExecutions_Cons pendingExecution_def del: upt_Suc)
qed

lemma newExecutions_pending:
  "e \<in> set (newExecutions h runId t stps) \<Longrightarrow>
     se_run_id e = runId \<and> se_status e = ''pending'' \<and> se_input_context e = None"
  by (induction stps arbitrary: t) (auto simp: newExecutions_Cons pendingExecution_def)

lemma execute_started:
  assumes "fst (execute h wid st) = Inr runId"
  defines "stps \<equiv> getWorkflowSteps st wid"
  shows "runId = uuidv4 h (tick st)"
    and "step_executions (snd (execute h wid st))
           = step_executions st @ newExecutions h runId (tick st + 1) stps"
    and "getRun (snd (execute h wid st)) runId \<noteq> None"
    and "stps \<noteq> []"
proof -
  from assms(1) obtain w where w: "getWorkflow st wid = Some w"
    by (cases "getWorkflow st wid") (auto simp: execute_def)
  with assms(1) show ne: "stps \<noteq> []"
    by (auto simp: execute_def stps_def Let_def split: if_splits)
  with assms(1) w show rid: "runId = uuidv4 h (tick st)"
    by (simp add: execute_def stps_def Let_def createRun_def)
  from w ne show "step_executions (snd (execute h wid st))
           = step_executions st @ newExecutions h runId (tick st + 1) stps"
    by (simp add: execute_def stps_def [symmetric] Let_def createStepExecutions_foldl rid
        createRun_def)
  from w ne have "runs (snd (execute h wid st)) = runs st @ [fst (createRun h wid st)]"
    by (simp add: execute_def stps_def [symmetric] Let_def createStepExecutions_foldl
        createRun_def)
  moreover have "r_id (fst (createRun h wid st)) = runId"
    by (simp add: createRun_def rid Let_def)
  ultimately show "getRun (snd (execute h wid st)) runId \<noteq> None"
    by (auto simp: getRun_def find_None_iff)
qed

lemma run_summary:
  assumes ex: "fst (execute h wid st) = Inr runId"
    and fresh: "freshIds h st (length (getWorkflowSteps st wid))"
    and dist: "distinct (map s_id (getWorkflowSteps st wid))"
  defines "st' \<equiv> snd (executeToEnd h wid st)"
  shows "stepTrace h [] (getWorkflowSteps st wid) (runExecs st' runId)"
    and "runStatusOf st' runId = Some (runOutcome (runExecs st' runId))"
    and "getRunStatus st' runId = None"
proof -
  define stps where "stps = getWorkflowSteps st wid"
  define st1 where "st1 = snd (execute h wid st)"
  define todo where "todo = newExecutions h runId (tick st + 1) stps"
  note started = execute_started [OF ex, folded stps_def st1_def]
  have se1: "step_executions st1 = step_executions st @ todo"
    using started(2) by (simp add: todo_def)
  have ids: "map se_id todo = map (uuidv4 h) [tick st + 1 ..< tick st + 1 + length stps]"
    by (simp add: todo_def newExecutions_ids)
  have old: "\<forall>e\<in>set (step_executions st). se_id e \<notin> set (map se_id todo) \<and>
           \<not> (se_run_id e = runId \<and> se_step_id e \<in> set (map s_id stps))"
    using fresh started(1) unfolding freshIds_def ids stps_def list_all_iff by blast
  have oldrun: "\<forall>e\<in>set (step_executions st). se_run_id e \<noteq> runId"
    using fresh started(1) unfolding freshIds_def list_all_iff by blast
  have t1: "map se_step_id todo = map s_id stps"
    by (simp add: todo_def newExecutions_step_ids)
  have t2: "\<forall>e\<in>set todo. se_run_id e = runId \<and> se_status e = ''pending'' \<and> se_input_context e = None"
    using newExecutions_pending unfolding todo_def by blast
  have t3: "distinct (map se_id todo)"
    using fresh unfolding ids freshIds_def stps_def by blast
  from executeStepsFrom_trace [OF se1 old t1 t2 t3 dist [folded stps_def], of h 0 "[]" 0 0]
  obtain cur st2 where r:
    "executeStepsFrom h runId 0 stps [] 0 0 st1 = (None, st2)"
    "step_executions st2 = step_executions st @ cur"
    "stepTrace h [] stps cur"
    "\<forall>e\<in>set cur. se_run_id e = runId"
    "map_option r_status (getRun st2 runId) = map_option (\<lambda>r. runOutcome cur) (getRun st1 runId)"
    "activeRuns st2 = (activeRuns st1)(runId := None)"
    by blast
  have "execute h wid st = (Inr runId, st1)"
    using ex by (simp add: st1_def prod_eq_iff)
  then have "executeToEnd h wid st = (Inr runId, st2)"
    using r(1) by (simp add: executeToEnd_def background_def executeSteps_def stps_def)
  then have st': "st' = st2" by (simp add: st'_def)
  have re: "runExecs st' runId = cur"
    using r(2,4) oldrun by (simp add: st' runExecs_def filter_id_conv filter_empty_conv)
  show "stepTrace h [] (getWorkflowSteps st wid) (runExecs st' runId)"
    using r(3) by (simp add: re stps_def)
  show "runStatusOf st' runId = Some (runOutcome (runExecs st' runId))"
    using r(5) started(3) re by (auto simp: runStatusOf_def st')
  show "getRunStatus st' runId = None"
    using r(6) by (simp add: getRunStatus_def st')
qed


subsection \<open>Reading a trace\<close>

lemma stepTrace_step_ids: "stepTrace h ctx ss es \<Longrightarrow> map se_step_id es = map s_id ss"
proof (induction ss arbitrary: es ctx)
  case Nil
  then show ?case by simp
next
  case (Cons s ss)
  then show ?case by (cases es) (auto split: if_splits)
qed

lemma stepTrace_length: "stepTrace h ctx ss es \<Longrightarrow> length es = length ss"
  using stepTrace_step_ids [of h ctx ss es] by (metis length_map)



lemma stepTrace_attempts:
  "stepTrace h ctx ss es \<Longrightarrow> j < length es \<Longrightarrow> se_status (es ! j) \<noteq> ''pending'' \<Longrightarrow>
     0 < s_retry_limit (ss ! j) \<Longrightarrow>
     1 \<le> se_attempts (es ! j) \<and> se_attempts (es ! j) \<le> s_retry_limit (ss ! j)"
proof (induction ss arbitrary: es ctx j)
  case Nil
  then show ?case by simp
next
  case (Cons s ss)
  then obtain e es' where es: "es = e # es'" by (cases es) auto
  show ?case
  proof (cases j)
    case 0
    with Cons.prems es show ?thesis by simp
  next
    case (Suc j')
    show ?thesis
    proof (cases "se_status e = ''passed''")
      case True
      with Cons.prems(1) es obtain ctx' where "stepTrace h ctx' ss es'" by auto
      from Cons.IH [OF this, of j'] Cons.prems(2,3,4) es Suc show ?thesis by simp
    next
      case False
      with Cons.prems(1) es have "list_all (\<lambda>e'. se_status e' = ''pending'' \<and> se_input_context e' = None) es'"
        by simp
      with Cons.prems(2,3) es Suc show ?thesis by (simp add: list_all_length)
    qed
  qed
qed

lemma stepTrace_context:
  "stepTrace h ctx ss es \<Longrightarrow> Suc j < length es \<Longrightarrow> se_status (es ! Suc j) \<noteq> ''pending'' \<Longrightarrow>
     \<exists>outp. se_status (es ! j) = ''passed'' \<and> se_output (es ! j) = Some outp \<and>
        passingOutput h (ss ! j) outp \<and>
        se_input_context (es ! Suc j) = Some (extractContext outp (s_context_mode (ss ! j)))"
proof (induction ss arbitrary: es ctx j)
  case Nil
  then show ?case by simp
next
  case (Cons s ss)
  then obtain e es' where es: "es = e # es'" by (cases es) auto
  have p: "se_status e = ''passed''"
  proof (rule ccontr)
    assume "se_status e \<noteq> ''passed''"
    with Cons.prems(1) es have "list_all (\<lambda>e'. se_status e' = ''pending'' \<and> se_input_context e' = None) es'"
      by simp
    with Cons.prems(2,3) es show False by (simp add: list_all_length)
  qed
  with Cons.prems(1) es obtain outp where o: "se_output e = Some outp" "passingOutput h s outp"
    "stepTrace h (extractContext outp (s_context_mode s)) ss es'"
    by auto
  show ?case
  proof (cases j)
    case 0
    from Cons.prems(2) es 0 obtain e1 es'' where es': "es' = e1 # es''" by (cases es') auto
    with o(3) obtain s1 ss' where "ss = s1 # ss'" by (cases ss) auto
    with o(3) es' have "se_input_context e1 = Some (extractContext outp (s_context_mode s))"
      by simp
    with p o(1,2) es es' 0 show ?thesis by simp
  next
    case (Suc j')
    from Cons.IH [OF o(3), of j'] Cons.prems(2,3) es Suc show ?thesis by simp
  qed
qed

lemma stepTrace_first:
  "stepTrace h ctx ss es \<Longrightarrow> es \<noteq> [] \<Longrightarrow> se_input_context (es ! 0) = Some ctx"
  by (cases ss; cases es) auto


subsection \<open>The table of active runs\<close>

lemma find_append_cases:
  "find P (xs @ ys) = (case find P xs of None \<Rightarrow> find P ys | Some x \<Rightarrow> Some x)"
  by (induction xs) simp_all

lemma activeAreRunning_completeRun:
  "activeAreRunning st \<Longrightarrow> activeAreRunning (completeRun h runId c t st)"
  unfolding activeAreRunning_def
  by (auto simp: completeRun_def Let_def broadcast_def getRun_def updateRun_def
      find_updateFirst_other)

lemma activeAreRunning_failRun:
  "activeAreRunning st \<Longrightarrow> activeAreRunning (failRun h runId msg c t st)"
  unfolding activeAreRunning_def
  by (auto simp: failRun_def Let_def broadcast_def getRun_def updateRun_def
      find_updateFirst_other)

lemma execute_state:
  assumes "fst (execute h wid st) = Inr runId"
  shows "runId = uuidv4 h (tick st)"
    and "runs (snd (execute h wid st)) = runs st @ [fst (createRun h wid st)]"
    and "activeRuns (snd (execute h wid st))
           = (activeRuns st)(runId \<mapsto> \<lparr>workflowId = wid, status = ''running''\<rparr>)"
proof -
  from assms obtain w where w: "getWorkflow st wid = Some w"
    by (cases "getWorkflow st wid") (auto simp: execute_def)
  with assms have ne: "getWorkflowSteps st wid \<noteq> []"
    by (auto simp: execute_def Let_def split: if_splits)
  with assms w show rid: "runId = uuidv4 h (tick st)"
    by (simp add: execute_def Let_def createRun_def)
  from w ne show "runs (snd (execute h wid st)) = runs st @ [fst (createRun h wid st)]"
    by (simp add: execute_def Let_def createStepExecutions_foldl createRun_def)
  from w ne show "activeRuns (snd (execute h wid st))
           = (activeRuns st)(runId \<mapsto> \<lparr>workflowId = wid, status = ''running''\<rparr>)"
    by (simp add: execute_def Let_def createStepExecutions_foldl createRun_def rid)
qed

lemma execute_rejected:
  "fst (execute h wid st) = Inl message \<Longrightarrow> snd (execute h wid st) = st"
  by (auto simp: execute_def Let_def split: option.splits if_splits)

lemma activeAreRunning_execute:
  assumes "activeAreRunning st" "uuidv4 h (tick st) \<notin> set (map r_id (runs st))"
  shows "activeAreRunning (snd (execute h wid st))"
proof (cases "fst (execute h wid st)")
  case (Inl message)
  with assms(1) show ?thesis by (simp add: execute_rejected)
next
  case (Inr runId)
  note s = execute_state [OF Inr]
  have new: "r_id (fst (createRun h wid st)) = runId" "r_status (fst (createRun h wid st)) = ''running''"
    by (simp_all add: createRun_def Let_def s(1))
  have fresh: "\<forall>r\<in>set (runs st). r_id r \<noteq> runId"
    using assms(2) s(1) by (auto simp: image_iff)
  have g1: "getRun (snd (execute h wid st)) runId = Some (fst (createRun h wid st))"
    using fresh new by (simp add: getRun_def s(2) find_append_skip)
  have g2: "runId' \<noteq> runId \<Longrightarrow> getRun (snd (execute h wid st)) runId' = getRun st runId'" for runId'
    using new by (simp add: getRun_def s(2) find_append_cases split: option.splits)
  show ?thesis
    unfolding activeAreRunning_def
  proof (intro allI impI)
    fix runId' entry
    assume a: "activeRuns (snd (execute h wid st)) runId' = Some entry"
    show "status entry = ''running'' \<and>
        (\<forall>r. getRun (snd (execute h wid st)) runId' = Some r \<longrightarrow> r_status r = ''running'')"
    proof (cases "runId' = runId")
      case True
      with a g1 new show ?thesis by (auto simp: s(3))
    next
      case False
      with a assms(1) g2 show ?thesis by (auto simp: s(3) activeAreRunning_def)
    qed
  qed
qed

lemma engineState_activeAreRunning: "engineState h st \<Longrightarrow> activeAreRunning st"
proof (induction rule: engineState.induct)
  case (constructed st)
  then show ?case by (simp add: activeAreRunning_def)
next
  case (executed st wid)
  then show ?case by (simp add: activeAreRunning_execute)
next
  case (step_written st ident updates)
  then show ?case by (simp add: activeAreRunning_def updateStepExecution_def getRun_def)
next
  case (broadcasted st runId ev)
  then show ?case by (simp add: activeAreRunning_def broadcast_def getRun_def)
next
  case (ticked st t)
  then show ?case by (simp add: activeAreRunning_def getRun_def)
next
  case (completed st runId totalCost totalTokens)
  then show ?case by (simp add: activeAreRunning_completeRun)
next
  case (failed st runId error totalCost totalTokens)
  then show ?case by (simp add: activeAreRunning_failRun)
qed


lemma engineState_attempt:
  "engineState h st \<Longrightarrow> engineState h (snd (attempt h runId step previousContext v st))"
  unfolding attempt_def Let_def
  by (auto split: sum.splits intro!: engineState.broadcasted engineState.ticked)

lemma engineState_attemptLoop:
  "engineState h st \<Longrightarrow>
     engineState h (snd (snd (attemptLoop h runId step previousContext attempts v st)))"
proof (induction attempts v st rule: attemptLoop_induct [where h = h and runId = runId and step = step and previousContext = previousContext])
  case (stop attempts v st)
  then show ?case by (simp add: attemptLoop_done)
next
  case (again attempts v st)
  have "engineState h (snd (nextAttempt h runId step previousContext attempts v st))"
    unfolding nextAttempt_def
    by (intro engineState_attempt engineState.broadcasted again.prems)
  with again show ?case by (simp add: attemptLoop_again)
qed

lemma engineState_runStep:
  "engineState h st \<Longrightarrow>
     engineState h (snd (snd (runStep h runId i step stepExec previousContext st)))"
  unfolding runStep_def Let_def
  by (auto intro!: engineState.step_written engineState.ticked engineState_attemptLoop
      engineState.broadcasted)

lemma engineState_executeStepsFrom:
  "engineState h st \<Longrightarrow>
     engineState h (snd (executeStepsFrom h runId i stps previousContext totalCost totalTokens st))"
proof (induction stps arbitrary: st i previousContext totalCost totalTokens)
  case Nil
  then show ?case by (simp add: engineState.completed)
next
  case (Cons step stps)
  show ?case
  proof (cases "getStepExecution st runId (s_id step)")
    case None
    with Cons.prems show ?thesis by simp
  next
    case (Some stepExec)
    define R where "R = runStep h runId i step stepExec previousContext st"
    have st4: "engineState h (snd (snd R))"
      unfolding R_def by (rule engineState_runStep [OF Cons.prems])
    show ?thesis
    proof (cases "v_passed (fst (snd R))")
      case True
      with Some show ?thesis
        by (simp add: Let_def R_def [symmetric])
           (intro Cons.IH engineState.broadcasted st4)
    next
      case False
      with Some show ?thesis
        by (simp add: Let_def R_def [symmetric])
           (intro engineState.failed engineState.broadcasted st4)
    qed
  qed
qed

lemma engineState_background:
  "engineState h st \<Longrightarrow> engineState h (background h runId stps st)"
  using engineState_executeStepsFrom [of h st runId 0 stps "[]" 0 0]
  by (auto simp: background_def executeSteps_def split: prod.splits option.splits
      intro: engineState.failed)

lemma executeStepsFrom_terminal:
  "case executeStepsFrom h runId i stps previousContext totalCost totalTokens st of
     (None, st') \<Rightarrow>
       activeRuns st' runId = None \<and>
       (\<exists>s. (s = ''completed'' \<or> s = ''failed'') \<and>
            map_option r_status (getRun st' runId) = map_option (\<lambda>r. s) (getRun st runId))
   | (Some message, st') \<Rightarrow> runs st' = runs st"
proof (induction stps arbitrary: st i previousContext totalCost totalTokens)
  case Nil
  show ?case
    by (auto simp: completeRun_data getRun_completeRun)
next
  case (Cons step stps)
  show ?case
  proof (cases "getStepExecution st runId (s_id step)")
    case None
    then show ?thesis by simp
  next
    case (Some stepExec)
    define R where "R = runStep h runId i step stepExec previousContext st"
    have r4: "runs (snd (snd R)) = runs st"
      unfolding R_def by (rule runStep_data(2))
    show ?thesis
    proof (cases "v_passed (fst (snd R))")
      case True
      define st5 where "st5 = broadcast runId (step_completed (s_id step) i True None) (snd (snd R))"
      have r5: "runs st5 = runs st" by (simp add: st5_def broadcast_def r4)
      then have g5: "getRun st5 runId = getRun st runId" by (simp add: getRun_def)
      from True Some have eq: "executeStepsFrom h runId i (step # stps) previousContext totalCost totalTokens st
        = executeStepsFrom h runId (i + 1) stps
            (extractContext (v_lastOutput (fst (snd R))) (s_context_mode step))
            (totalCost + v_stepCost (fst (snd R))) (totalTokens + v_stepTokens (fst (snd R))) st5"
        by (simp add: Let_def R_def [symmetric] st5_def)
      show ?thesis
        unfolding eq
        using Cons.IH [where i = "i + 1" and st = st5
            and previousContext = "extractContext (v_lastOutput (fst (snd R))) (s_context_mode step)"
            and totalCost = "totalCost + v_stepCost (fst (snd R))"
            and totalTokens = "totalTokens + v_stepTokens (fst (snd R))"]
        by (simp add: g5 r5 split: prod.splits option.splits)
    next
      case False
      have "getRun (broadcast runId (step_completed (s_id step) i False
                (Some (v_lastError (fst (snd R))))) (snd (snd R))) runId = getRun st runId"
        by (simp add: getRun_def broadcast_def r4)
      with False Some show ?thesis
        by (auto simp: Let_def R_def [symmetric] failRun_data getRun_failRun)
    qed
  qed
qed

lemma background_terminal:
  "getRunStatus (background h runId stps st) runId = None"
  "getRun st runId \<noteq> None \<Longrightarrow>
     \<exists>r. getRun (background h runId stps st) runId = Some r \<and>
         (r_status r = ''completed'' \<or> r_status r = ''failed'')"
proof -
  obtain x st' where x: "executeStepsFrom h runId 0 stps [] 0 0 st = (x, st')"
    by (cases "executeStepsFrom h runId 0 stps [] 0 0 st")
  note t = executeStepsFrom_terminal [where h = h and runId = runId and i = 0 and stps = stps
      and previousContext = "[]" and totalCost = 0 and totalTokens = 0 and st = st, unfolded x]
  show "getRunStatus (background h runId stps st) runId = None"
    using t by (cases x) (simp_all add: background_def executeSteps_def x getRunStatus_def failRun_data)
  assume "getRun st runId \<noteq> None"
  then obtain r0 where r0: "getRun st runId = Some r0" by blast
  show "\<exists>r. getRun (background h runId stps st) runId = Some r \<and>
         (r_status r = ''completed'' \<or> r_status r = ''failed'')"
  proof (cases x)
    case None
    with t r0 show ?thesis
      by (auto simp: background_def executeSteps_def x)
  next
    case (Some message)
    with t have "getRun st' runId = Some r0" by (simp add: getRun_def r0 [unfolded getRun_def])
    with getRun_failRun [of h runId message 0 0 st'] Some show ?thesis
      by (auto simp: background_def executeSteps_def x)
  qed
qed


section \<open>The example run\<close>

lemma demo_started: "fst (execute demoHost ''w'' demoState) = Inr ''u0''"
  by code_simp

lemma demo_fresh: "freshIds demoHost demoState (length (getWorkflowSteps demoState ''w''))"
  by code_simp

lemma demo_distinct: "distinct (map s_id (getWorkflowSteps demoState ''w''))"
  by code_simp

lemma demo_limits: "map s_retry_limit (getWorkflowSteps demoState ''w'') = [3, 2, 2, 3]"
  by code_simp

lemma demo_executions:
  "map (\<lambda>e. (se_status e, se_attempts e, se_input_context e, se_output e))
     (runExecs (snd (executeToEnd demoHost ''w'' demoState)) ''u0'')
   = [(''passed'', 1, Some [], Some ''echo Write code''),
      (''passed'', 1, Some ''echo Write code'', Some ''echo Review: echo Write code''),
      (''failed'', 2, Some ''echo Review: echo Write code'', Some ''echo Test it''),
      (''pending'', 0, None, None)]"
  by code_simp

lemma demo_status:
  "runStatusOf (snd (executeToEnd demoHost ''w'' demoState)) ''u0'' = Some ''failed''"
  by code_simp

lemma demo_registered:
  "getRunStatus (snd (execute demoHost ''w'' demoState)) ''u0''
     = Some \<lparr>workflowId = ''w'', status = ''running''\<rparr>"
  by code_simp

section \<open>Runs: properties\<close>





text \<open>
  C6. With a retry limit of at least one, the retry loop of a step ends with an attempt
  count between one and the limit. After a run, every step execution that is no longer
  \<open>pending\<close> (the step was executed) records such a count.
\<close>

theorem attempts_within_retry_limit:
  assumes "fst (execute h wid st) = Inr runId"
    and "freshIds h st (length (getWorkflowSteps st wid))"
    and "distinct (map s_id (getWorkflowSteps st wid))"
  shows "(0 < s_retry_limit step \<longrightarrow>
            1 \<le> fst (attemptLoop h runId' step previousContext 0 initialVars st0) \<and>
            fst (attemptLoop h runId' step previousContext 0 initialVars st0) \<le> s_retry_limit step)
         \<and> (let execs = runExecs (snd (executeToEnd h wid st)) runId;
                stps = getWorkflowSteps st wid
            in \<forall>j<length execs.
                 se_status (execs ! j) \<noteq> ''pending'' \<and> 0 < s_retry_limit (stps ! j) \<longrightarrow>
                 1 \<le> se_attempts (execs ! j) \<and> se_attempts (execs ! j) \<le> s_retry_limit (stps ! j))"
proof -
  have "0 < s_retry_limit step \<longrightarrow>
            1 \<le> fst (attemptLoop h runId' step previousContext 0 initialVars st0) \<and>
            fst (attemptLoop h runId' step previousContext 0 initialVars st0) \<le> s_retry_limit step"
    using attemptLoop_attempts [of 0 step h runId' previousContext initialVars st0]
    by (simp add: initialVars_def)
  moreover have "\<forall>j<length (runExecs (snd (executeToEnd h wid st)) runId).
      se_status (runExecs (snd (executeToEnd h wid st)) runId ! j) \<noteq> ''pending'' \<and>
      0 < s_retry_limit (getWorkflowSteps st wid ! j) \<longrightarrow>
      1 \<le> se_attempts (runExecs (snd (executeToEnd h wid st)) runId ! j) \<and>
      se_attempts (runExecs (snd (executeToEnd h wid st)) runId ! j)
        \<le> s_retry_limit (getWorkflowSteps st wid ! j)"
    using stepTrace_attempts [OF run_summary(1) [OF assms]] by blast
  ultimately show ?thesis by (simp add: Let_def)
qed

theorem attempts_within_retry_limit_witness:
  "fst (execute demoHost ''w'' demoState) = Inr ''u0''
   \<and> freshIds demoHost demoState (length (getWorkflowSteps demoState ''w''))
   \<and> distinct (map s_id (getWorkflowSteps demoState ''w''))
   \<and> map s_retry_limit (getWorkflowSteps demoState ''w'') = [3, 2, 2, 3]
   \<and> map se_status (runExecs (snd (executeToEnd demoHost ''w'' demoState)) ''u0'')
       = [''passed'', ''passed'', ''failed'', ''pending'']
   \<and> map se_attempts (runExecs (snd (executeToEnd demoHost ''w'' demoState)) ''u0'')
       = [1, 1, 2, 0]
   \<and> 1 \<le> se_attempts (runExecs (snd (executeToEnd demoHost ''w'' demoState)) ''u0'' ! 2)
   \<and> se_attempts (runExecs (snd (executeToEnd demoHost ''w'' demoState)) ''u0'' ! 2)
       \<le> s_retry_limit (getWorkflowSteps demoState ''w'' ! 2)"
proof -
  let ?execs = "runExecs (snd (executeToEnd demoHost ''w'' demoState)) ''u0''"
  have sts: "map se_status ?execs = [''passed'', ''passed'', ''failed'', ''pending'']"
    using arg_cong [OF demo_executions, of "map fst"] by (simp add: comp_def)
  have att: "map se_attempts ?execs = [1, 1, 2, 0]"
    using arg_cong [OF demo_executions, of "map (\<lambda>x. fst (snd x))"] by (simp add: comp_def)
  have len: "length ?execs = 4"
    using arg_cong [OF sts, of length] by simp
  have s2: "se_status (?execs ! 2) = ''failed''"
    using arg_cong [OF sts, of "\<lambda>xs. xs ! 2"] len by simp
  have lens: "length (getWorkflowSteps demoState ''w'') = 4"
    using arg_cong [OF demo_limits, of length] by simp
  have l2: "s_retry_limit (getWorkflowSteps demoState ''w'' ! 2) = 2"
    using nth_map [of 2 "getWorkflowSteps demoState ''w''" s_retry_limit] lens
    by (simp add: demo_limits)
  have "1 \<le> se_attempts (?execs ! 2) \<and>
      se_attempts (?execs ! 2) \<le> s_retry_limit (getWorkflowSteps demoState ''w'' ! 2)"
    using attempts_within_retry_limit [OF demo_started demo_fresh demo_distinct,
        THEN conjunct2, unfolded Let_def, rule_format, of 2] len s2 l2
    by simp
  then show ?thesis
    using demo_started demo_fresh demo_distinct demo_limits sts att by simp
qed

text \<open>
  C7. After a run, the first step execution records the empty string as its input
  context. Every later step execution that was started records as its input context
  \<open>extractContext\<close> of the output recorded for the step before it, under that step's
  context mode; the step before it is \<open>passed\<close>, and its recorded output is an answer of
  the provider on which its criterion passes.
\<close>

theorem context_handed_to_next_step:
  assumes "fst (execute h wid st) = Inr runId"
    and "freshIds h st (length (getWorkflowSteps st wid))"
    and "distinct (map s_id (getWorkflowSteps st wid))"
  shows "let execs = runExecs (snd (executeToEnd h wid st)) runId;
             stps = getWorkflowSteps st wid
         in execs \<noteq> [] \<and> se_input_context (execs ! 0) = Some [] \<and>
            (\<forall>j. Suc j < length execs \<and> se_status (execs ! Suc j) \<noteq> ''pending'' \<longrightarrow>
               (\<exists>outp. se_status (execs ! j) = ''passed'' \<and>
                  se_output (execs ! j) = Some outp \<and>
                  passingOutput h (stps ! j) outp \<and>
                  se_input_context (execs ! Suc j)
                    = Some (extractContext outp (s_context_mode (stps ! j)))))"
proof -
  note tr = run_summary(1) [OF assms]
  have "getWorkflowSteps st wid \<noteq> []"
    using execute_started(4) [OF assms(1)] .
  with stepTrace_length [OF tr]
  have ne: "runExecs (snd (executeToEnd h wid st)) runId \<noteq> []" by auto
  show ?thesis
    unfolding Let_def
    using ne stepTrace_first [OF tr ne] stepTrace_context [OF tr] by blast
qed

theorem context_handed_to_next_step_witness:
  "fst (execute demoHost ''w'' demoState) = Inr ''u0''
   \<and> freshIds demoHost demoState (length (getWorkflowSteps demoState ''w''))
   \<and> distinct (map s_id (getWorkflowSteps demoState ''w''))
   \<and> map se_input_context (runExecs (snd (executeToEnd demoHost ''w'' demoState)) ''u0'')
       = [Some [], Some ''echo Write code'', Some ''echo Review: echo Write code'', None]
   \<and> map se_output (runExecs (snd (executeToEnd demoHost ''w'' demoState)) ''u0'')
       = [Some ''echo Write code'', Some ''echo Review: echo Write code'',
          Some ''echo Test it'', None]
   \<and> se_input_context (runExecs (snd (executeToEnd demoHost ''w'' demoState)) ''u0'' ! 0)
       = Some []
   \<and> extractContext ''echo Write code'' ''full'' = ''echo Write code''"
proof -
  let ?execs = "runExecs (snd (executeToEnd demoHost ''w'' demoState)) ''u0''"
  have inp: "map se_input_context ?execs
       = [Some [], Some ''echo Write code'', Some ''echo Review: echo Write code'', None]"
    using arg_cong [OF demo_executions, of "map (\<lambda>x. fst (snd (snd x)))"] by (simp add: comp_def)
  have out: "map se_output ?execs
       = [Some ''echo Write code'', Some ''echo Review: echo Write code'',
          Some ''echo Test it'', None]"
    using arg_cong [OF demo_executions, of "map (\<lambda>x. snd (snd (snd x)))"] by (simp add: comp_def)
  have "se_input_context (?execs ! 0) = Some []"
    using context_handed_to_next_step [OF demo_started demo_fresh demo_distinct]
    by (simp add: Let_def)
  moreover have "extractContext ''echo Write code'' ''full'' = ''echo Write code''"
    by (simp add: extractContext_def)
  ultimately show ?thesis
    using demo_started demo_fresh demo_distinct inp out by simp
qed


section \<open>The table of active runs: properties\<close>

lemma demo_engineState: "engineState demoHost (snd (execute demoHost ''w'' demoState))"
proof (rule engineState.executed)
  show "engineState demoHost demoState"
    by (rule engineState.constructed)
       (simp add: demoState_def steplessState_def emptyState_def)
  show "uuidv4 demoHost (tick demoState) \<notin> set (map r_id (runs demoState))"
    by (simp add: demoState_def steplessState_def emptyState_def)
qed

lemma demo_run_record:
  "map_option r_status (getRun (snd (execute demoHost ''w'' demoState)) ''u0'') = Some ''running''"
  by code_simp

text \<open>
  C10. In every state an executor passes through, each entry of the table of active
  runs has the status \<open>running\<close>, and the run record of an active run, if there is one,
  is \<open>running\<close> too: a run whose record is \<open>completed\<close> or \<open>failed\<close> has no entry, and
  \<open>getRunStatus\<close> answers \<open>null\<close> for it. The background work of a run leads from such
  states to such states. For a run started by \<open>execute\<close>: the entry it registers has the
  status \<open>running\<close>; when its background work has ended, \<open>getRunStatus\<close> answers \<open>null\<close>
  while the run record is still there, \<open>completed\<close> or \<open>failed\<close>.
\<close>

theorem active_runs_are_running_until_removed:
  "(engineState h st \<longrightarrow>
      (\<forall>runId entry. getRunStatus st runId = Some entry \<longrightarrow> status entry = ''running'') \<and>
      (\<forall>runId r. getRun st runId = Some r \<and> r_status r \<noteq> ''running'' \<longrightarrow>
         getRunStatus st runId = None) \<and>
      engineState h (background h someRun stps st))
   \<and> (fst (execute h wid st0) = Inr runId0 \<longrightarrow>
        getRunStatus (snd (execute h wid st0)) runId0
          = Some \<lparr>workflowId = wid, status = ''running''\<rparr> \<and>
        getRunStatus (snd (executeToEnd h wid st0)) runId0 = None \<and>
        (\<exists>r. getRun (snd (executeToEnd h wid st0)) runId0 = Some r \<and>
             (r_status r = ''completed'' \<or> r_status r = ''failed'')))"
proof -
  have a: "engineState h st \<longrightarrow>
      (\<forall>runId entry. getRunStatus st runId = Some entry \<longrightarrow> status entry = ''running'') \<and>
      (\<forall>runId r. getRun st runId = Some r \<and> r_status r \<noteq> ''running'' \<longrightarrow>
         getRunStatus st runId = None) \<and>
      engineState h (background h someRun stps st)"
  proof
    assume e: "engineState h st"
    from engineState_activeAreRunning [OF e]
    have inv: "\<And>runId entry. activeRuns st runId = Some entry \<Longrightarrow>
        status entry = ''running'' \<and> (\<forall>r. getRun st runId = Some r \<longrightarrow> r_status r = ''running'')"
      unfolding activeAreRunning_def by blast
    have "\<forall>runId entry. getRunStatus st runId = Some entry \<longrightarrow> status entry = ''running''"
      using inv by (simp add: getRunStatus_def)
    moreover have "\<forall>runId r. getRun st runId = Some r \<and> r_status r \<noteq> ''running'' \<longrightarrow>
         getRunStatus st runId = None"
    proof (intro allI impI)
      fix runId r
      assume r: "getRun st runId = Some r \<and> r_status r \<noteq> ''running''"
      show "getRunStatus st runId = None"
      proof (cases "activeRuns st runId")
        case None
        then show ?thesis by (simp add: getRunStatus_def)
      next
        case (Some entry)
        from inv [OF Some] r show ?thesis by blast
      qed
    qed
    ultimately show "(\<forall>runId entry. getRunStatus st runId = Some entry \<longrightarrow> status entry = ''running'') \<and>
      (\<forall>runId r. getRun st runId = Some r \<and> r_status r \<noteq> ''running'' \<longrightarrow>
         getRunStatus st runId = None) \<and>
      engineState h (background h someRun stps st)"
      using engineState_background [OF e] by blast
  qed
  have b: "fst (execute h wid st0) = Inr runId0 \<longrightarrow>
        getRunStatus (snd (execute h wid st0)) runId0
          = Some \<lparr>workflowId = wid, status = ''running''\<rparr> \<and>
        getRunStatus (snd (executeToEnd h wid st0)) runId0 = None \<and>
        (\<exists>r. getRun (snd (executeToEnd h wid st0)) runId0 = Some r \<and>
             (r_status r = ''completed'' \<or> r_status r = ''failed''))"
  proof
    assume ex: "fst (execute h wid st0) = Inr runId0"
    obtain st1 where st1: "execute h wid st0 = (Inr runId0, st1)"
      using ex by (cases "execute h wid st0") simp
    then have fin: "snd (executeToEnd h wid st0)
        = background h runId0 (getWorkflowSteps st0 wid) (snd (execute h wid st0))"
      by (simp add: executeToEnd_def)
    have "getRunStatus (snd (execute h wid st0)) runId0
          = Some \<lparr>workflowId = wid, status = ''running''\<rparr>"
      by (simp add: getRunStatus_def execute_state(3) [OF ex])
    moreover have "getRunStatus (snd (executeToEnd h wid st0)) runId0 = None"
      unfolding fin by (rule background_terminal(1))
    moreover have "\<exists>r. getRun (snd (executeToEnd h wid st0)) runId0 = Some r \<and>
             (r_status r = ''completed'' \<or> r_status r = ''failed'')"
      unfolding fin by (rule background_terminal(2) [OF execute_started(3) [OF ex]])
    ultimately show "getRunStatus (snd (execute h wid st0)) runId0
          = Some \<lparr>workflowId = wid, status = ''running''\<rparr> \<and>
        getRunStatus (snd (executeToEnd h wid st0)) runId0 = None \<and>
        (\<exists>r. getRun (snd (executeToEnd h wid st0)) runId0 = Some r \<and>
             (r_status r = ''completed'' \<or> r_status r = ''failed''))"
      by blast
  qed
  from a b show ?thesis by blast
qed

theorem active_runs_are_running_until_removed_witness:
  "engineState demoHost (snd (execute demoHost ''w'' demoState))
   \<and> getRunStatus (snd (execute demoHost ''w'' demoState)) ''u0''
       = Some \<lparr>workflowId = ''w'', status = ''running''\<rparr>
   \<and> runStatusOf (snd (execute demoHost ''w'' demoState)) ''u0'' = Some ''running''
   \<and> fst (execute demoHost ''w'' demoState) = Inr ''u0''
   \<and> getRunStatus (snd (executeToEnd demoHost ''w'' demoState)) ''u0'' = None
   \<and> runStatusOf (snd (executeToEnd demoHost ''w'' demoState)) ''u0'' = Some ''failed''"
proof -
  have "getRunStatus (snd (executeToEnd demoHost ''w'' demoState)) ''u0'' = None"
    using active_runs_are_running_until_removed
      [of demoHost "snd (execute demoHost ''w'' demoState)" "''u0''" "[]" "''w''" demoState "''u0''"]
      demo_engineState demo_started
    by blast
  then show ?thesis
    using demo_engineState demo_registered demo_run_record demo_started demo_status
    by (simp add: runStatusOf_def)
qed


end
